theory Spec2Isabelle
  imports Complex_Main "HOL-Library.Sublist"
begin

section \<open>The job model of app.py\<close>

text \<open>
  \<^verbatim>\<open>JobType\<close> is the enum of app.py. A PIL image is abstracted to the list of its
  pixel columns from left to right, every column to a number (0 is the all-black column):
  the code only ever cuts and joins images along vertical lines. A Python \<^verbatim>\<open>str\<close> is
  the list of its code points. Times and durations are seconds, as rationals.
\<close>

datatype JobType = IMAGE | TEXT | WEATHER | CLEAR | NOOP

type_synonym image = "nat list"

type_synonym pystr = "nat list"

record Job =
  jtype :: JobType
  duration :: "rat option"
  jid :: int
  jimage :: "image option"
  gif_frames :: "image list option"
  frame_delays :: "rat list option"
  jtext :: "pystr option"
  template :: "pystr option"

text \<open>The dataclass constructor with every optional field at its default.\<close>

definition Job_new :: "JobType \<Rightarrow> Job" where
  "Job_new t = \<lparr>jtype = t, duration = None, jid = 0, jimage = None, gif_frames = None,
     frame_delays = None, jtext = None, template = None\<rparr>"

section \<open>Python and PIL primitives\<close>

datatype error = IndexError | ZeroDivisionError | ValueError

text \<open>\<^verbatim>\<open>xs[i]\<close> for an index that is not negative.\<close>

definition py_index :: "'a list \<Rightarrow> nat \<Rightarrow> error + 'a" where
  "py_index xs i = (if i < length xs then Inr (xs ! i) else Inl IndexError)"

text \<open>\<^verbatim>\<open>a % b\<close> on numbers that are not negative.\<close>

definition py_mod :: "nat \<Rightarrow> nat \<Rightarrow> error + nat" where
  "py_mod a b = (if b = 0 then Inl ZeroDivisionError else Inr (a mod b))"

text \<open>
  \<^verbatim>\<open>xs or default\<close> and \<^verbatim>\<open>if xs:\<close> on an optional list: \<^verbatim>\<open>None\<close> and the empty
  list are both falsy.
\<close>

definition truthy :: "'a list option \<Rightarrow> bool" where
  "truthy v = (case v of None \<Rightarrow> False | Some xs \<Rightarrow> xs \<noteq> [])"

definition or_default :: "'a list option \<Rightarrow> 'a list \<Rightarrow> 'a list" where
  "or_default v d = (case v of None \<Rightarrow> d | Some xs \<Rightarrow> if xs = [] then d else xs)"

text \<open>
  \<^verbatim>\<open>img.crop((l, 0, r, h))\<close> over the full height: the columns \<open>l \<dots> r - 1\<close>, black
  where the box leaves the image; current Pillow raises \<^verbatim>\<open>ValueError\<close> when \<open>r < l\<close>
  (the theorems below only meet boxes with \<open>l \<le> r\<close>).
  \<^verbatim>\<open>Image.new("RGB", (w, h))\<close> is black. \<^verbatim>\<open>dst.paste(src, (off, 0))\<close> overwrites
  the columns from \<open>off\<close> on, clipped to \<open>dst\<close>.
\<close>

definition crop :: "image \<Rightarrow> nat \<Rightarrow> nat \<Rightarrow> error + image" where
  "crop img l r =
     (if r < l then Inl ValueError
      else Inr (take (r - l) (drop l img @ replicate (r - l) 0)))"

definition new_image :: "nat \<Rightarrow> image" where
  "new_image w = replicate w 0"

definition paste :: "image \<Rightarrow> image \<Rightarrow> nat \<Rightarrow> image" where
  "paste dst src off = take (length dst) (take off dst @ src @ drop (off + length src) dst)"

text \<open>
  What PIL computes from pixel data and fonts is outside the repository; it is a
  parameter of the model. \<open>fit\<close> is \<^verbatim>\<open>ImageOps.fit(img.convert("RGB"), (w, h), method)\<close>,
  \<open>draw_text\<close> the columns that \<^verbatim>\<open>ImageDraw.text\<close> paints for a text on a canvas of
  the given height, \<open>textlength\<close> is \<^verbatim>\<open>int(draw.textlength(text, font))\<close> for a text
  that \<^verbatim>\<open>textlength\<close> measures, and \<open>weather_block\<close> the 64 by 32 placeholder of
  \<^verbatim>\<open>_display_weather_template\<close>.
\<close>

datatype resampling = LANCZOS | NEAREST

record pil =
  fit :: "resampling \<Rightarrow> image \<Rightarrow> nat \<Rightarrow> nat \<Rightarrow> image"
  draw_text :: "pystr \<Rightarrow> nat \<Rightarrow> image"
  textlength :: "pystr \<Rightarrow> nat"
  weather_block :: "pystr \<Rightarrow> image"

text \<open>
  \<^verbatim>\<open>draw.textlength(text, font=font)\<close>: Pillow refuses to measure a text of several
  lines and raises \<^verbatim>\<open>ValueError\<close> if the text holds a line break (code point 10).
\<close>

definition draw_textlength :: "pil \<Rightarrow> pystr \<Rightarrow> error + nat" where
  "draw_textlength env txt =
     (if 10 \<in> set txt then Inl ValueError else Inr (textlength env txt))"

section \<open>DisplayManager\<close>

text \<open>
  What the matrix has been told to show, in order.
\<close>

datatype sink_op = SetImage image | Clear

text \<open>
  The local state of a render routine inside its \<^verbatim>\<open>while\<close> loop:
  \<open>Hold duration start\<close> for \<^verbatim>\<open>_display_image\<close>,
  \<open>Gif frames delays duration start i\<close> for \<^verbatim>\<open>_display_gif\<close>,
  \<open>Scroll img text_w duration start x\<close> for \<^verbatim>\<open>_display_text_scroll\<close>.
\<close>

datatype render =
    Hold "rat option" rat
  | Gif "image list" "rat list" "rat option" rat nat
  | Scroll image nat "rat option" rat nat

text \<open>
  Where the worker thread stands in \<^verbatim>\<open>_worker\<close>: before \<^verbatim>\<open>self._job_q.get()\<close>,
  before \<^verbatim>\<open>self._cancel_evt.clear()\<close>, before the publication of the current job,
  before the dispatch on the job type, inside a render loop, in the \<^verbatim>\<open>finally\<close>
  block (with the exception in flight, if any), terminated by an exception that left
  \<^verbatim>\<open>_worker\<close>, or returned because \<^verbatim>\<open>_running\<close> was false.
\<close>

datatype wpc =
    At_get
  | At_clear Job
  | At_publish Job
  | At_dispatch Job
  | In_render render
  | At_finally "error option"
  | Dead error
  | Stopped

text \<open>
  The fields of the class, then the world around it: the sink's log, the clock read by
  \<^verbatim>\<open>time.time()\<close>, the worker thread's position, the jobs of callers that are
  between the two statements of \<^verbatim>\<open>enqueue\<close>, and four history lists that record
  the ids in the order in which they were assigned, put, got and dispatched.
  \<open>matrix\<close> holds the width and height of the device, \<open>None\<close> in dry mode.
\<close>

record DisplayManager =
  job_q :: "Job list"
  current_job :: "Job option"
  cancel_evt :: bool
  next_id :: int
  running :: bool
  matrix :: "(nat \<times> nat) option"
  sink :: "sink_op list"
  now :: rat
  worker :: wpc
  pending :: "Job list"
  assigned :: "int list"
  put_log :: "int list"
  pop_log :: "int list"
  shown_log :: "int list"

definition DisplayManager_init :: "(nat \<times> nat) option \<Rightarrow> rat \<Rightarrow> DisplayManager" where
  "DisplayManager_init m t0 =
     \<lparr>job_q = [], current_job = None, cancel_evt = False, next_id = 1, running = True,
      matrix = m, sink = [], now = t0, worker = At_get, pending = [],
      assigned = [], put_log = [], pop_log = [], shown_log = []\<rparr>"

definition next_job_id :: "DisplayManager \<Rightarrow> int \<times> DisplayManager" where
  "next_job_id s =
     (let i = next_id s
      in (i, s\<lparr>next_id := next_id s + 1, assigned := assigned s @ [i]\<rparr>))"

definition q_put :: "Job \<Rightarrow> DisplayManager \<Rightarrow> DisplayManager" where
  "q_put job s = s\<lparr>job_q := job_q s @ [job], put_log := put_log s @ [jid job]\<rparr>"

definition enqueue :: "DisplayManager \<Rightarrow> Job \<Rightarrow> int \<times> DisplayManager" where
  "enqueue s job =
     (let (i, s1) = next_job_id s;
          job1 = job\<lparr>jid := i\<rparr>;
          s2 = q_put job1 s1
      in (jid job1, s2))"

definition clear :: "DisplayManager \<Rightarrow> DisplayManager" where
  "clear s = snd (enqueue s ((Job_new CLEAR)\<lparr>duration := None\<rparr>))"

definition stop_current :: "DisplayManager \<Rightarrow> DisplayManager" where
  "stop_current s = s\<lparr>cancel_evt := True\<rparr>"

definition status :: "DisplayManager \<Rightarrow> int option \<times> JobType option \<times> nat" where
  "status s =
     (case current_job s of
        None \<Rightarrow> (None, None, length (job_q s))
      | Some j \<Rightarrow> (Some (jid j), Some (jtype j), length (job_q s)))"

subsection \<open>Drawing helpers\<close>

definition sleep :: "rat \<Rightarrow> DisplayManager \<Rightarrow> DisplayManager" where
  "sleep d s = s\<lparr>now := now s + d\<rparr>"

definition dims :: "DisplayManager \<Rightarrow> nat \<times> nat" where
  "dims s = (case matrix s of Some wh \<Rightarrow> wh | None \<Rightarrow> (64, 64))"

text \<open>\<^verbatim>\<open>if self.matrix: self.matrix.SetImage(frame)\<close>; output to stdout is not modelled.\<close>

definition set_image :: "image \<Rightarrow> DisplayManager \<Rightarrow> DisplayManager" where
  "set_image frame s =
     (case matrix s of None \<Rightarrow> s | Some _ \<Rightarrow> s\<lparr>sink := sink s @ [SetImage frame]\<rparr>)"

definition clear_matrix :: "DisplayManager \<Rightarrow> DisplayManager" where
  "clear_matrix s =
     (case matrix s of None \<Rightarrow> s | Some _ \<Rightarrow> s\<lparr>sink := sink s @ [Clear]\<rparr>)"

text \<open>
  The condition of all three \<^verbatim>\<open>while\<close> loops:
  \<^verbatim>\<open>not self._cancel_evt.is_set() and (duration is None or time.time() - start < duration)\<close>.
\<close>

definition loop_guard :: "DisplayManager \<Rightarrow> rat option \<Rightarrow> rat \<Rightarrow> bool" where
  "loop_guard s dur start \<longleftrightarrow>
     \<not> cancel_evt s \<and> (case dur of None \<Rightarrow> True | Some d \<Rightarrow> now s - start < d)"

text \<open>
  One evaluation of a loop condition together with the loop body that follows it:
  the routine returns, raises (with the effects it had before), or is back at the
  loop condition.
\<close>

datatype turn = Return | Raise error DisplayManager | Again render DisplayManager

definition display_image ::
  "pil \<Rightarrow> image \<Rightarrow> rat option \<Rightarrow> DisplayManager \<Rightarrow> render \<times> DisplayManager" where
  "display_image env img dur s =
     (let start = now s;
          (w, h) = dims s;
          frame = fit env LANCZOS img w h;
          s1 = set_image frame s
      in (Hold dur start, s1))"

definition display_image_turn :: "rat option \<Rightarrow> rat \<Rightarrow> DisplayManager \<Rightarrow> turn" where
  "display_image_turn dur start s =
     (if loop_guard s dur start then Again (Hold dur start) (sleep 0.05 s)
      else Return)"

definition display_gif ::
  "image list \<Rightarrow> rat list \<Rightarrow> rat option \<Rightarrow> DisplayManager \<Rightarrow> render \<times> DisplayManager" where
  "display_gif frames delays dur s = (Gif frames delays dur (now s) 0, s)"

definition display_gif_turn ::
  "pil \<Rightarrow> image list \<Rightarrow> rat list \<Rightarrow> rat option \<Rightarrow> rat \<Rightarrow> nat \<Rightarrow> DisplayManager \<Rightarrow> turn" where
  "display_gif_turn env frames delays dur start i s =
     (if loop_guard s dur start then
        (case py_index frames i of
           Inl e \<Rightarrow> Raise e s
         | Inr fr \<Rightarrow>
             (let (w, h) = dims s;
                  f = fit env NEAREST fr w h;
                  s1 = set_image f s
              in case py_index delays i of
                   Inl e \<Rightarrow> Raise e s1
                 | Inr d \<Rightarrow>
                     (let delay = max 0.01 d;
                          s2 = sleep delay s1
                      in case py_mod (i + 1) (length frames) of
                           Inl e \<Rightarrow> Raise e s2
                         | Inr i' \<Rightarrow> Again (Gif frames delays dur start i') s2)))
      else Return)"

text \<open>The frame of \<^verbatim>\<open>_display_text_scroll\<close> at offset \<open>x\<close> for a viewport of width \<open>w\<close>.\<close>

definition scroll_frame :: "image \<Rightarrow> nat \<Rightarrow> nat \<Rightarrow> error + image" where
  "scroll_frame img w x =
     (if x + w \<le> length img then crop img x (x + w)
      else
        (case crop img x (length img) of
           Inl e \<Rightarrow> Inl e
         | Inr right \<Rightarrow>
             (case crop img 0 (w - length right) of
                Inl e \<Rightarrow> Inl e
              | Inr left \<Rightarrow>
                  Inr (paste (paste (new_image w) right 0) left (length right)))))"

text \<open>
  The part of \<^verbatim>\<open>_display_text_scroll\<close> before its loop: the strip is painted, the text
  is measured, which may raise, and the clock is read. Nothing has reached the matrix by
  then, so an exception leaves the manager as it was.
\<close>

definition display_text_scroll ::
  "pil \<Rightarrow> pystr \<Rightarrow> rat option \<Rightarrow> DisplayManager \<Rightarrow> error + render \<times> DisplayManager" where
  "display_text_scroll env txt dur s =
     (let (w, h) = dims s;
          img = take 1000 (draw_text env txt h @ replicate 1000 0)
      in case draw_textlength env txt of
           Inl e \<Rightarrow> Inl e
         | Inr text_w \<Rightarrow> Inr (Scroll img text_w dur (now s) 0, s))"

definition display_text_scroll_turn ::
  "image \<Rightarrow> nat \<Rightarrow> rat option \<Rightarrow> rat \<Rightarrow> nat \<Rightarrow> DisplayManager \<Rightarrow> turn" where
  "display_text_scroll_turn img text_w dur start x s =
     (if loop_guard s dur start then
        (let (w, h) = dims s
         in case py_mod (x + 1) (text_w + w) of
              Inl e \<Rightarrow> Raise e s
            | Inr x' \<Rightarrow>
                (case scroll_frame img w x' of
                   Inl e \<Rightarrow> Raise e s
                 | Inr frame \<Rightarrow>
                     Again (Scroll img text_w dur start x')
                       (sleep 0.02 (set_image frame s))))
      else Return)"

definition display_weather_template ::
  "pil \<Rightarrow> pystr \<Rightarrow> rat option \<Rightarrow> DisplayManager \<Rightarrow> render \<times> DisplayManager" where
  "display_weather_template env tmpl dur s =
     display_image env (weather_block env tmpl) dur s"

fun render_turn :: "pil \<Rightarrow> render \<Rightarrow> DisplayManager \<Rightarrow> turn" where
  "render_turn env (Hold dur start) s = display_image_turn dur start s"
| "render_turn env (Gif frames delays dur start i) s =
     display_gif_turn env frames delays dur start i s"
| "render_turn env (Scroll img text_w dur start x) s =
     display_text_scroll_turn img text_w dur start x s"

subsection \<open>The worker loop\<close>

definition enter :: "render \<times> DisplayManager \<Rightarrow> DisplayManager" where
  "enter rs = (snd rs)\<lparr>worker := In_render (fst rs)\<rparr>"

text \<open>The code points of \<^verbatim>\<open>"default"\<close>.\<close>

definition str_default :: pystr where
  "str_default = [100, 101, 102, 97, 117, 108, 116]"

text \<open>The body of the \<^verbatim>\<open>try\<close> block, up to the first loop condition of the routine called.\<close>

definition dispatch :: "pil \<Rightarrow> Job \<Rightarrow> DisplayManager \<Rightarrow> DisplayManager" where
  "dispatch env job s =
     (case jtype job of
        CLEAR \<Rightarrow> (sleep 0.05 (clear_matrix s))\<lparr>worker := At_finally None\<rparr>
      | IMAGE \<Rightarrow>
          (if truthy (gif_frames job) then
             enter (display_gif (the (gif_frames job))
               (or_default (frame_delays job) (replicate (length (the (gif_frames job))) 0.07))
               (duration job) s)
           else
             (case jimage job of
                Some img \<Rightarrow> enter (display_image env img (duration job) s)
              | None \<Rightarrow> s\<lparr>worker := At_finally None\<rparr>))
      | TEXT \<Rightarrow>
          (case display_text_scroll env (or_default (jtext job) []) (duration job) s of
             Inl e \<Rightarrow> s\<lparr>worker := At_finally (Some e)\<rparr>
           | Inr rs \<Rightarrow> enter rs)
      | WEATHER \<Rightarrow>
          enter (display_weather_template env (or_default (template job) str_default)
            (duration job) s)
      | NOOP \<Rightarrow> (sleep 0.01 s)\<lparr>worker := At_finally None\<rparr>)"

text \<open>
  One step of the worker thread. An empty queue blocks \<^verbatim>\<open>get()\<close>: the step changes
  nothing. The \<^verbatim>\<open>try\<close> has a \<^verbatim>\<open>finally\<close> and no \<^verbatim>\<open>except\<close>: after the
  \<^verbatim>\<open>finally\<close> block an exception in flight leaves the \<^verbatim>\<open>while\<close> loop and
  \<^verbatim>\<open>_worker\<close>, which ends the thread. \<^verbatim>\<open>task_done()\<close> only counts down the
  queue's unfinished tasks, which nothing in the repository reads. The exceptions of the
  model are those that the Python code of the routines raises itself; the calls of the
  matrix are taken to succeed.
\<close>

definition worker_step :: "pil \<Rightarrow> DisplayManager \<Rightarrow> DisplayManager" where
  "worker_step env s =
     (case worker s of
        At_get \<Rightarrow>
          (if \<not> running s then s\<lparr>worker := Stopped\<rparr>
           else
             (case job_q s of
                [] \<Rightarrow> s
              | job # rest \<Rightarrow>
                  s\<lparr>job_q := rest, pop_log := pop_log s @ [jid job], worker := At_clear job\<rparr>))
      | At_clear job \<Rightarrow> s\<lparr>cancel_evt := False, worker := At_publish job\<rparr>
      | At_publish job \<Rightarrow> s\<lparr>current_job := Some job, worker := At_dispatch job\<rparr>
      | At_dispatch job \<Rightarrow> dispatch env job (s\<lparr>shown_log := shown_log s @ [jid job]\<rparr>)
      | In_render r \<Rightarrow>
          (case render_turn env r s of
             Return \<Rightarrow> s\<lparr>worker := At_finally None\<rparr>
           | Raise e s1 \<Rightarrow> s1\<lparr>worker := At_finally (Some e)\<rparr>
           | Again r1 s1 \<Rightarrow> s1\<lparr>worker := In_render r1\<rparr>)
      | At_finally exc \<Rightarrow>
          s\<lparr>current_job := None,
            worker := (case exc of None \<Rightarrow> At_get | Some e \<Rightarrow> Dead e)\<rparr>
      | Dead e \<Rightarrow> s
      | Stopped \<Rightarrow> s)"

subsection \<open>Threads running together\<close>

text \<open>
  The callers of the manager run in threads of their own. An event is one atomic step
  of one thread: a caller takes its id under the lock (\<open>Assign\<close>), a caller that holds
  an id puts its job (\<open>Put n\<close>, the \<open>n\<close>-th such caller), a caller sets the cancel
  event (\<open>Stop\<close>), the worker thread makes a step (\<open>Tick\<close>), or time passes
  (\<open>Elapse\<close>). Every caller passes a Job object of its own, as all callers in app.py do.
\<close>

datatype event = Assign Job | Put nat | Stop | Tick | Elapse rat

fun step :: "pil \<Rightarrow> DisplayManager \<Rightarrow> event \<Rightarrow> DisplayManager" where
  "step env s (Assign job) =
     (let (i, s1) = next_job_id s in s1\<lparr>pending := pending s1 @ [job\<lparr>jid := i\<rparr>]\<rparr>)"
| "step env s (Put n) =
     (if n < length (pending s)
      then q_put (pending s ! n) (s\<lparr>pending := take n (pending s) @ drop (Suc n) (pending s)\<rparr>)
      else s)"
| "step env s Stop = stop_current s"
| "step env s Tick = worker_step env s"
| "step env s (Elapse dt) = s\<lparr>now := now s + max 0 dt\<rparr>"

fun run :: "pil \<Rightarrow> DisplayManager \<Rightarrow> event list \<Rightarrow> DisplayManager" where
  "run env s [] = s"
| "run env s (e # es) = run env (step env s e) es"

section \<open>The HTTP handler for text in app.py\<close>

text \<open>
  \<^verbatim>\<open>str.isspace\<close> on one code point, and \<^verbatim>\<open>str.strip()\<close>, which removes such code
  points from both ends.
\<close>

definition py_isspace :: "nat \<Rightarrow> bool" where
  "py_isspace c \<longleftrightarrow>
     (9 \<le> c \<and> c \<le> 13) \<or> (28 \<le> c \<and> c \<le> 32) \<or> c = 133 \<or> c = 160 \<or> c = 5760
     \<or> (8192 \<le> c \<and> c \<le> 8202) \<or> c = 8232 \<or> c = 8233 \<or> c = 8239 \<or> c = 8287
     \<or> c = 12288"

definition py_strip :: "pystr \<Rightarrow> pystr" where
  "py_strip t = rev (dropWhile py_isspace (rev (dropWhile py_isspace t)))"

text \<open>
  \<^verbatim>\<open>ShowTextRequest\<close> after pydantic has parsed it (an omitted duration is 10.0 by then),
  and \<^verbatim>\<open>HTTPException(status_code, detail)\<close>. The handler returns the exception or the
  \<^verbatim>\<open>job_id\<close> of its response, and the manager as it is afterwards.
\<close>

record ShowTextRequest =
  req_text :: pystr
  req_duration :: "rat option"

datatype http_error = HTTPException nat string

definition show_text ::
  "DisplayManager \<Rightarrow> ShowTextRequest \<Rightarrow> (http_error + int) \<times> DisplayManager" where
  "show_text s req =
     (if py_strip (req_text req) = [] then
        (Inl (HTTPException 400 ''text must not be empty''), s)
      else
        (let (i, s1) = enqueue s ((Job_new TEXT)\<lparr>jtext := Some (req_text req),
                                   duration := req_duration req\<rparr>)
         in (Inr i, s1)))"

section \<open>\<^verbatim>\<open>pi_server.py\<close>\<close>

text \<open>
  The second server of the repository has no queue: every request that shows something
  starts a thread of its own, which draws on the matrix. A thread is modelled by its
  position: about to run the \<^verbatim>\<open>worker\<close> closure of \<^verbatim>\<open>show_image_from_url\<close>,
  \<^verbatim>\<open>show_text\<close> or \<^verbatim>\<open>show_weather\<close>; inside the loop of an animation, of a held
  frame or of a scrolling text; in its \<^verbatim>\<open>finally\<close> block; or ended. Exceptions are
  caught in the thread and lead to the \<^verbatim>\<open>finally\<close> block. A duration of \<open>None\<close> is
  one that is not a number, so that the comparison in the loop condition raises.
\<close>

datatype pthread =
    T_image pystr "rat option"
  | T_gif "image list" "rat list" "rat option" rat nat
  | T_hold "rat option" rat
  | T_text pystr "rat option"
  | T_scroll image nat "rat option" rat nat
  | T_weather pystr "rat option"
  | T_finally
  | T_done

text \<open>Who called the matrix: the server thread that handles requests, or a started thread.\<close>

datatype writer = Server | Thread nat

record MatrixHandler =
  stop_event :: bool
  mh_current_job :: "string option"
  threads :: "pthread list"
  mh_sink :: "(writer \<times> sink_op) list"
  mh_now :: rat

definition MatrixHandler_init :: "rat \<Rightarrow> MatrixHandler" where
  "MatrixHandler_init t0 =
     \<lparr>stop_event = False, mh_current_job = None, threads = [], mh_sink = [], mh_now = t0\<rparr>"

text \<open>
  What \<^verbatim>\<open>urlopen\<close> and \<^verbatim>\<open>Image.open\<close> deliver for a URL: nothing (an exception), a
  still image, or the frames of an animation with the \<^verbatim>\<open>duration\<close> entry of each
  frame's \<^verbatim>\<open>info\<close>, in milliseconds, if it has one.
\<close>

datatype fetched = Still image | Animated "(image \<times> rat option) list"

definition show_image_from_url :: "pystr \<Rightarrow> rat option \<Rightarrow> MatrixHandler \<Rightarrow> MatrixHandler" where
  "show_image_from_url url dur s =
     s\<lparr>stop_event := False, mh_current_job := Some ''image'',
       threads := threads s @ [T_image url dur]\<rparr>"

definition mh_show_text :: "pystr \<Rightarrow> rat option \<Rightarrow> MatrixHandler \<Rightarrow> MatrixHandler" where
  "mh_show_text txt dur s =
     s\<lparr>stop_event := False, mh_current_job := Some ''text'',
       threads := threads s @ [T_text txt dur]\<rparr>"

definition show_weather :: "pystr \<Rightarrow> rat option \<Rightarrow> MatrixHandler \<Rightarrow> MatrixHandler" where
  "show_weather tmpl dur s =
     s\<lparr>stop_event := False, mh_current_job := Some ''weather'',
       threads := threads s @ [T_weather tmpl dur]\<rparr>"

definition mh_clear :: "MatrixHandler \<Rightarrow> MatrixHandler" where
  "mh_clear s =
     s\<lparr>stop_event := True, mh_sink := mh_sink s @ [(Server, Clear)], mh_current_job := None\<rparr>"

definition mh_stop_current :: "MatrixHandler \<Rightarrow> MatrixHandler" where
  "mh_stop_current s = s\<lparr>stop_event := True, mh_current_job := None\<rparr>"

text \<open>
  The loop condition
  \<^verbatim>\<open>not self.stop_event.is_set() and (time.time() - start_time < duration)\<close>:
  true, false, or an exception.
\<close>

datatype guard = Go | Leave | Fails

definition mh_guard :: "MatrixHandler \<Rightarrow> rat option \<Rightarrow> rat \<Rightarrow> guard" where
  "mh_guard s dur start =
     (if stop_event s then Leave
      else
        (case dur of
           None \<Rightarrow> Fails
         | Some d \<Rightarrow> if mh_now s - start < d then Go else Leave))"

definition mh_set_image :: "nat \<Rightarrow> image \<Rightarrow> MatrixHandler \<Rightarrow> MatrixHandler" where
  "mh_set_image n frame s = s\<lparr>mh_sink := mh_sink s @ [(Thread n, SetImage frame)]\<rparr>"

definition mh_sleep :: "rat \<Rightarrow> MatrixHandler \<Rightarrow> MatrixHandler" where
  "mh_sleep d s = s\<lparr>mh_now := mh_now s + d\<rparr>"

text \<open>
  One step of thread \<open>n\<close> at position \<open>t\<close>: its new position and the new state of the
  handler. The step of a loop is one check of the condition with the body that follows,
  its sleep included: the clock moves on by the time slept.
\<close>

definition thread_step ::
  "pil \<Rightarrow> (pystr \<Rightarrow> fetched option) \<Rightarrow> nat \<Rightarrow> pthread \<Rightarrow> MatrixHandler
     \<Rightarrow> pthread \<times> MatrixHandler" where
  "thread_step env fetch n t s =
     (case t of
        T_image url dur \<Rightarrow>
          (case fetch url of
             None \<Rightarrow> (T_finally, s)
           | Some (Animated fs) \<Rightarrow>
               (T_gif (map fst fs)
                  (map (\<lambda>f. max 0.01 ((case snd f of None \<Rightarrow> 70 | Some ms \<Rightarrow> ms) / 1000)) fs)
                  dur (mh_now s) 0, s)
           | Some (Still img) \<Rightarrow>
               (let s1 = mh_set_image n (fit env LANCZOS img 64 64) s
                in (T_hold dur (mh_now s1), s1)))
      | T_gif frames delays dur start idx \<Rightarrow>
          (case mh_guard s dur start of
             Leave \<Rightarrow> (T_finally, s)
           | Fails \<Rightarrow> (T_finally, s)
           | Go \<Rightarrow>
               (case py_index frames idx of
                  Inl e \<Rightarrow> (T_finally, s)
                | Inr fr \<Rightarrow>
                    (let s1 = mh_set_image n (fit env LANCZOS fr 64 64) s
                     in case py_index delays idx of
                          Inl e \<Rightarrow> (T_finally, s1)
                        | Inr d \<Rightarrow>
                            (let s2 = mh_sleep d s1
                             in case py_mod (idx + 1) (length frames) of
                                  Inl e \<Rightarrow> (T_finally, s2)
                                | Inr i' \<Rightarrow> (T_gif frames delays dur start i', s2)))))
      | T_hold dur start \<Rightarrow>
          (case mh_guard s dur start of
             Leave \<Rightarrow> (T_finally, s)
           | Fails \<Rightarrow> (T_finally, s)
           | Go \<Rightarrow> (T_hold dur start, mh_sleep 0.1 s))
      | T_text txt dur \<Rightarrow>
          (case draw_textlength env txt of
             Inl e \<Rightarrow> (T_finally, s)
           | Inr text_w \<Rightarrow>
               (T_scroll (take 1000 (draw_text env txt 64 @ replicate 1000 0)) text_w
                  dur (mh_now s) 0, s))
      | T_scroll img text_w dur start x \<Rightarrow>
          (case mh_guard s dur start of
             Leave \<Rightarrow> (T_finally, s)
           | Fails \<Rightarrow> (T_finally, s)
           | Go \<Rightarrow>
               (case py_mod (x + 1) (text_w + 64) of
                  Inl e \<Rightarrow> (T_finally, s)
                | Inr x' \<Rightarrow>
                    (case scroll_frame img 64 x' of
                       Inl e \<Rightarrow> (T_finally, s)
                     | Inr frame \<Rightarrow>
                         (T_scroll img text_w dur start x',
                          mh_sleep 0.02 (mh_set_image n frame s)))))
      | T_weather tmpl dur \<Rightarrow>
          (let s1 = mh_set_image n (weather_block env tmpl) s
           in (T_hold dur (mh_now s1), s1))
      | T_finally \<Rightarrow> (T_done, s\<lparr>mh_current_job := None\<rparr>)
      | T_done \<Rightarrow> (T_done, s))"

text \<open>
  The body of a POST request after \<^verbatim>\<open>json.loads\<close>: the entries the handler reads.
  An entry is \<open>None\<close> if the key is missing. For the duration, \<open>Some None\<close> is a value
  that is not a number. The response is the HTTP status with the \<^verbatim>\<open>ok\<close> flag and the
  message or error text of the body; a 404 has no body.
\<close>

record post_data =
  d_url :: "pystr option"
  d_text :: "pystr option"
  d_template :: "pystr option"
  d_duration :: "rat option option"

datatype response = Json nat bool string | NotFound

definition get_duration :: "post_data \<Rightarrow> rat option" where
  "get_duration d = (case d_duration d of None \<Rightarrow> Some 10 | Some v \<Rightarrow> v)"

text \<open>The code points of \<^verbatim>\<open>"current"\<close>.\<close>

definition str_current :: pystr where
  "str_current = [99, 117, 114, 114, 101, 110, 116]"

definition do_POST :: "string \<Rightarrow> post_data \<Rightarrow> MatrixHandler \<Rightarrow> response \<times> MatrixHandler" where
  "do_POST path d s =
     (if path = ''/matrix/show/image'' then
        (if truthy (d_url d)
         then (Json 200 True ''Image display started'',
               show_image_from_url (the (d_url d)) (get_duration d) s)
         else (Json 200 False ''URL required'', s))
      else if path = ''/matrix/show/text'' then
        (if truthy (d_text d)
         then (Json 200 True ''Text display started'',
               mh_show_text (the (d_text d)) (get_duration d) s)
         else (Json 200 False ''Text required'', s))
      else if path = ''/matrix/show/weather'' then
        (Json 200 True ''Weather display started'',
         show_weather (case d_template d of None \<Rightarrow> str_current | Some t \<Rightarrow> t)
           (get_duration d) s)
      else if path = ''/matrix/clear'' then (Json 200 True ''Matrix cleared'', mh_clear s)
      else if path = ''/matrix/stop'' then
        (Json 200 True ''Current job stopped'', mh_stop_current s)
      else (NotFound, s))"

text \<open>
  The server handles one request at a time; the started threads run beside it. An event
  is a request, a step of the \<open>n\<close>-th thread, or passing time.
\<close>

datatype mh_event = Post string post_data | Run nat | Wait rat

fun mh_step ::
  "pil \<Rightarrow> (pystr \<Rightarrow> fetched option) \<Rightarrow> MatrixHandler \<Rightarrow> mh_event \<Rightarrow> MatrixHandler" where
  "mh_step env fetch s (Post path d) = snd (do_POST path d s)"
| "mh_step env fetch s (Run n) =
     (if n < length (threads s)
      then (let (t1, s1) = thread_step env fetch n (threads s ! n) s
            in s1\<lparr>threads := (threads s1)[n := t1]\<rparr>)
      else s)"
| "mh_step env fetch s (Wait dt) = s\<lparr>mh_now := mh_now s + max 0 dt\<rparr>"

fun mh_run ::
  "pil \<Rightarrow> (pystr \<Rightarrow> fetched option) \<Rightarrow> MatrixHandler \<Rightarrow> mh_event list \<Rightarrow> MatrixHandler" where
  "mh_run env fetch s [] = s"
| "mh_run env fetch s (e # es) = mh_run env fetch (mh_step env fetch s e) es"

section \<open>Auxiliary definitions for the proofs\<close>

text \<open>
  The part of the state that rendering never touches: everything but the sink's log,
  the clock and the worker's position.
\<close>

definition control :: "DisplayManager \<Rightarrow> DisplayManager" where
  "control s = s\<lparr>sink := [], now := 0, worker := At_get\<rparr>"

text \<open>The id of the job the worker has taken from the queue and not yet dispatched.\<close>

definition in_hand :: "wpc \<Rightarrow> int list" where
  "in_hand p =
     (case p of At_clear j \<Rightarrow> [jid j] | At_publish j \<Rightarrow> [jid j] | At_dispatch j \<Rightarrow> [jid j]
      | _ \<Rightarrow> [])"

definition fifo_inv :: "DisplayManager \<Rightarrow> bool" where
  "fifo_inv s \<longleftrightarrow>
     pop_log s @ map jid (job_q s) = put_log s \<and> shown_log s @ in_hand (worker s) = pop_log s"

text \<open>A concrete stand-in for PIL, used to run the model on examples.\<close>

definition env0 :: pil where
  "env0 = \<lparr>fit = (\<lambda>m img w h. take w img), draw_text = (\<lambda>t h. t),
     textlength = (\<lambda>t. 6 * length t), weather_block = (\<lambda>t. t)\<rparr>"

text \<open>Two callers enqueue a no-op job and a clear job; the worker then runs both.\<close>

definition two_jobs :: "event list" where
  "two_jobs =
     [Assign (Job_new NOOP), Put 0, Assign (Job_new CLEAR), Put 0,
      Tick, Tick, Tick, Tick, Tick, Tick, Tick, Tick, Tick, Tick]"

text \<open>The ids assigned so far are strictly increasing and below the counter.\<close>

definition id_inv :: "DisplayManager \<Rightarrow> bool" where
  "id_inv s \<longleftrightarrow> sorted_wrt (<) (assigned s) \<and> (\<forall>i\<in>set (assigned s). i < next_id s)"

text \<open>
  The invariants of the spec's data model, in the spec's words: a duration, if present,
  is strictly positive; the payload is non-empty for an image, text or weather job and
  absent for a clear or no-op job.
\<close>

definition has_payload :: "Job \<Rightarrow> bool" where
  "has_payload j \<longleftrightarrow>
     jimage j \<noteq> None \<or> gif_frames j \<noteq> None \<or> frame_delays j \<noteq> None \<or> jtext j \<noteq> None
     \<or> template j \<noteq> None"

definition spec_job_invariants :: "Job \<Rightarrow> bool" where
  "spec_job_invariants j \<longleftrightarrow>
     (case duration j of None \<Rightarrow> True | Some d \<Rightarrow> 0 < d) \<and>
     (case jtype j of
        IMAGE \<Rightarrow> jimage j \<noteq> None \<or> truthy (gif_frames j)
      | TEXT \<Rightarrow> truthy (jtext j)
      | WEATHER \<Rightarrow> truthy (template j)
      | CLEAR \<Rightarrow> \<not> has_payload j
      | NOOP \<Rightarrow> \<not> has_payload j)"

text \<open>An image job with a negative duration and no content.\<close>

definition invalid_job :: Job where
  "invalid_job = (Job_new IMAGE)\<lparr>duration := Some (- 1)\<rparr>"

text \<open>
  The positions of the worker in which a set cancel event reaches no job: it waits at the
  queue or is about to clear the event for the job it has taken, so that it clears the
  event before it renders; or its thread has ended.
\<close>

definition before_clear :: "wpc \<Rightarrow> bool" where
  "before_clear p =
     (case p of At_get \<Rightarrow> True | At_clear j \<Rightarrow> True | Dead e \<Rightarrow> True | Stopped \<Rightarrow> True
      | _ \<Rightarrow> False)"

text \<open>From the dispatch of a job to the end of its \<^verbatim>\<open>finally\<close> block a job is current.\<close>

definition published :: "DisplayManager \<Rightarrow> bool" where
  "published s \<longleftrightarrow>
     (case worker s of
        At_dispatch j \<Rightarrow> current_job s \<noteq> None
      | In_render r \<Rightarrow> current_job s \<noteq> None
      | At_finally e \<Rightarrow> current_job s \<noteq> None
      | _ \<Rightarrow> True)"

text \<open>
  Example inputs: a text job; a manager on which \<^verbatim>\<open>stop_current\<close> was called while it
  was idle, before that job was enqueued; an image job with no content and one with both
  kinds of content; a manager whose worker is about to dispatch a given job, with the text
  job queued behind it.
\<close>

definition text_job :: Job where
  "text_job = (Job_new TEXT)\<lparr>jtext := Some [72, 105], duration := Some 10\<rparr>"

definition stale_stop :: DisplayManager where
  "stale_stop = run env0 (DisplayManager_init (Some (64, 64)) 0) [Stop, Assign text_job, Put 0]"

definition empty_image_job :: Job where
  "empty_image_job = (Job_new IMAGE)\<lparr>jid := 1\<rparr>"

definition both_image_job :: Job where
  "both_image_job = (Job_new IMAGE)\<lparr>jid := 1, jimage := Some [1, 2], gif_frames := Some [ [3], [4] ]\<rparr>"

definition at_dispatch :: "Job \<Rightarrow> DisplayManager" where
  "at_dispatch job =
     (DisplayManager_init (Some (64, 64)) 0)\<lparr>worker := At_dispatch job, current_job := Some job,
        job_q := [text_job\<lparr>jid := 2\<rparr>]\<rparr>"

text \<open>
  The time for which the animation routine sleeps after the \<open>j\<close>-th frame it has shown
  (counted from 0), for \<open>n\<close> frames, and the time it has slept before it shows the
  \<open>k\<close>-th.
\<close>

definition hold_time :: "rat list \<Rightarrow> nat \<Rightarrow> nat \<Rightarrow> rat" where
  "hold_time delays n j = max 0.01 (delays ! (j mod n))"

definition gif_time :: "rat list \<Rightarrow> nat \<Rightarrow> nat \<Rightarrow> rat" where
  "gif_time delays n k = sum_list (map (hold_time delays n) [0..<k])"

text \<open>Three frames with the delays 0.1, 0.2 and 0.005 seconds, to be shown until cancelled.\<close>

definition gif_job :: Job where
  "gif_job = (Job_new IMAGE)\<lparr>jid := 1, gif_frames := Some [ [10], [11], [12] ],
     frame_delays := Some [0.1, 0.2, 0.005]\<rparr>"

text \<open>
  That job is enqueued on a fresh manager and the worker makes two steps: it has taken
  the job and cleared the cancel event, and has not yet published the job as current.
\<close>

definition in_window :: DisplayManager where
  "in_window =
     run env0 (DisplayManager_init (Some (64, 64)) 0) [Assign gif_job, Put 0, Tick, Tick]"

text \<open>
  The window of width \<open>w\<close> at offset \<open>x\<close> into an image, in the spec's words: the
  slice \<open>[x, x + w)\<close>, continued at the left edge where it passes the right edge.
\<close>

definition wrap_slice :: "image \<Rightarrow> nat \<Rightarrow> nat \<Rightarrow> image" where
  "wrap_slice img w x = map (\<lambda>c. img ! ((x + c) mod length img)) [0..<w]"

text \<open>
  A text of logical width 50 on a matrix 20 columns wide: a stand-in for PIL that reports
  that width, the 1000 columns wide strip it paints for the two-letter text of
  \<open>text_job\<close>, and a manager whose worker is about to dispatch that job.
\<close>

definition env50 :: pil where
  "env50 = env0\<lparr>textlength := (\<lambda>t. 50)\<rparr>"

definition strip_hi :: image where
  "strip_hi = take 1000 ([72, 105] @ replicate 1000 0)"

definition scroll_start :: DisplayManager where
  "scroll_start =
     (DisplayManager_init (Some (20, 64)) 0)\<lparr>worker := At_dispatch (text_job\<lparr>jid := 1\<rparr>),
        current_job := Some (text_job\<lparr>jid := 1\<rparr>)\<rparr>"

text \<open>
  The exit condition in the spec's words: the cancellation signal is set, or a duration
  is set and the time elapsed since the start has reached it.
\<close>

definition exit_condition :: "DisplayManager \<Rightarrow> rat option \<Rightarrow> rat \<Rightarrow> bool" where
  "exit_condition s dur start \<longleftrightarrow>
     cancel_evt s \<or> (case dur of None \<Rightarrow> False | Some d \<Rightarrow> d \<le> now s - start)"

text \<open>The duration and the start time a render loop works with.\<close>

fun render_duration :: "render \<Rightarrow> rat option" where
  "render_duration (Hold dur start) = dur"
| "render_duration (Gif frames delays dur start i) = dur"
| "render_duration (Scroll img text_w dur start x) = dur"

fun render_start :: "render \<Rightarrow> rat" where
  "render_start (Hold dur start) = start"
| "render_start (Gif frames delays dur start i) = start"
| "render_start (Scroll img text_w dur start x) = start"

text \<open>
  A loop state in which the next turn cannot raise: the animation has a frame and a delay
  at its index; the strip of the scrolling text is long enough for every offset.
\<close>

fun render_ok :: "DisplayManager \<Rightarrow> render \<Rightarrow> bool" where
  "render_ok s (Hold dur start) = True"
| "render_ok s (Gif frames delays dur start i) =
     (i < length frames \<and> length frames \<le> length delays)"
| "render_ok s (Scroll img text_w dur start x) =
     (0 < text_w + fst (dims s) \<and> text_w + fst (dims s) \<le> Suc (length img))"

text \<open>
  The worker is inside such a render loop for a job without duration, and the cancel
  event is not set.
\<close>

definition unbounded :: "DisplayManager \<Rightarrow> bool" where
  "unbounded s \<longleftrightarrow>
     \<not> cancel_evt s \<and>
     (case worker s of In_render r \<Rightarrow> render_duration r = None \<and> render_ok s r | _ \<Rightarrow> False)"

text \<open>
  More example inputs: a still image with duration 0; an animation with two frames and
  one delay; and a schedule in which that animation and then the text job are enqueued
  and the worker makes seven steps.
\<close>

definition still_job :: Job where
  "still_job = (Job_new IMAGE)\<lparr>jid := 1, jimage := Some [1, 2], duration := Some 0\<rparr>"

definition short_gif_job :: Job where
  "short_gif_job = (Job_new IMAGE)\<lparr>gif_frames := Some [ [1], [2] ], frame_delays := Some [0.1]\<rparr>"

definition bad_then_text :: "event list" where
  "bad_then_text =
     [Assign short_gif_job, Put 0, Assign text_job, Put 0,
      Tick, Tick, Tick, Tick, Tick, Tick, Tick]"

text \<open>
  Example inputs for \<^verbatim>\<open>pi_server.py\<close>: no URL can be fetched; a request body with a text and
  nothing else; the strip that the stand-in \<open>env0\<close> paints for a text; and two text
  requests after which each of the two started threads makes three steps, in turn.
\<close>

definition fetch0 :: "pystr \<Rightarrow> fetched option" where
  "fetch0 url = None"

definition post_text :: "pystr \<Rightarrow> post_data" where
  "post_text t = \<lparr>d_url = None, d_text = Some t, d_template = None, d_duration = None\<rparr>"

definition strip_of :: "pystr \<Rightarrow> image" where
  "strip_of t = take 1000 (t @ replicate 1000 0)"

definition two_texts :: "mh_event list" where
  "two_texts =
     [Post ''/matrix/show/text'' (post_text [65]), Post ''/matrix/show/text'' (post_text [66]),
      Run 0, Run 1, Run 0, Run 1, Run 0, Run 1]"

section \<open>Rendering leaves the control state alone\<close>

lemma control_fields:
  "job_q (control s) = job_q s" "current_job (control s) = current_job s"
  "cancel_evt (control s) = cancel_evt s" "next_id (control s) = next_id s"
  "running (control s) = running s" "matrix (control s) = matrix s"
  "pending (control s) = pending s" "assigned (control s) = assigned s"
  "put_log (control s) = put_log s" "pop_log (control s) = pop_log s"
  "shown_log (control s) = shown_log s"
  by (simp_all add: control_def)

lemma control_sleep [simp]: "control (sleep d s) = control s"
  by (simp add: control_def sleep_def)

lemma control_set_image [simp]: "control (set_image f s) = control s"
  by (simp add: control_def set_image_def split: option.splits)

lemma control_clear_matrix [simp]: "control (clear_matrix s) = control s"
  by (simp add: control_def clear_matrix_def split: option.splits)

lemma control_worker [simp]: "control (s\<lparr>worker := p\<rparr>) = control s"
  by (simp add: control_def)

lemma control_enter: "control (enter (r, s)) = control s"
  by (simp add: enter_def)

lemma control_display_image: "control (snd (display_image env img d s)) = control s"
  by (simp add: display_image_def Let_def split: prod.splits)

lemma control_turn_Raise: "render_turn env r s = Raise e s1 \<Longrightarrow> control s1 = control s"
  by (cases r)
    (auto simp: display_image_turn_def display_gif_turn_def display_text_scroll_turn_def Let_def
      split: if_splits sum.splits prod.splits)

lemma control_turn_Again: "render_turn env r s = Again r1 s1 \<Longrightarrow> control s1 = control s"
  by (cases r)
    (auto simp: display_image_turn_def display_gif_turn_def display_text_scroll_turn_def Let_def
      split: if_splits sum.splits prod.splits)

lemma control_dispatch: "control (dispatch env job s) = control s"
  by (simp add: dispatch_def enter_def display_gif_def display_image_def display_text_scroll_def
      display_weather_template_def Let_def
      split: JobType.splits option.splits prod.splits sum.splits)


section \<open>FIFO order\<close>

lemma control_eqD:
  assumes "control a = control b"
  shows "job_q a = job_q b" "current_job a = current_job b" "cancel_evt a = cancel_evt b"
    "next_id a = next_id b" "running a = running b" "matrix a = matrix b"
    "pending a = pending b" "assigned a = assigned b" "put_log a = put_log b"
    "pop_log a = pop_log b" "shown_log a = shown_log b"
  using assms control_fields by metis+

lemma in_hand_dispatch: "in_hand (worker (dispatch env job s)) = []"
  by (simp add: dispatch_def enter_def in_hand_def
      split: JobType.splits option.splits sum.splits)

lemma fifo_inv_init: "fifo_inv (DisplayManager_init m t0)"
  by (simp add: fifo_inv_def DisplayManager_init_def in_hand_def)

lemma fifo_inv_worker_step:
  assumes "fifo_inv s"
  shows "fifo_inv (worker_step env s)"
proof (cases "worker s")
  case At_get
  with assms show ?thesis
    by (auto simp: worker_step_def fifo_inv_def in_hand_def split: list.splits)
next
  case (At_clear j)
  with assms show ?thesis by (simp add: worker_step_def fifo_inv_def in_hand_def)
next
  case (At_publish j)
  with assms show ?thesis by (simp add: worker_step_def fifo_inv_def in_hand_def)
next
  case (At_dispatch j)
  let ?s1 = "s\<lparr>shown_log := shown_log s @ [jid j]\<rparr>"
  have c: "control (dispatch env j ?s1) = control ?s1" by (rule control_dispatch)
  have "job_q (dispatch env j ?s1) = job_q s" "put_log (dispatch env j ?s1) = put_log s"
    "pop_log (dispatch env j ?s1) = pop_log s"
    "shown_log (dispatch env j ?s1) = shown_log s @ [jid j]"
    using control_eqD [OF c] by simp_all
  with assms At_dispatch show ?thesis
    by (simp add: worker_step_def fifo_inv_def in_hand_dispatch) (simp add: in_hand_def)
next
  case (In_render r)
  show ?thesis
  proof (cases "render_turn env r s")
    case Return
    with assms In_render show ?thesis by (simp add: worker_step_def fifo_inv_def in_hand_def)
  next
    case (Raise e s1)
    from control_eqD [OF control_turn_Raise [OF Raise] ] assms In_render Raise show ?thesis
      by (simp add: worker_step_def fifo_inv_def in_hand_def)
  next
    case (Again r1 s1)
    from control_eqD [OF control_turn_Again [OF Again] ] assms In_render Again show ?thesis
      by (simp add: worker_step_def fifo_inv_def in_hand_def)
  qed
next
  case (At_finally exc)
  with assms show ?thesis
    by (simp add: worker_step_def fifo_inv_def in_hand_def split: option.splits)
next
  case (Dead e)
  with assms show ?thesis by (simp add: worker_step_def)
next
  case Stopped
  with assms show ?thesis by (simp add: worker_step_def)
qed

lemma fifo_inv_step: "fifo_inv s \<Longrightarrow> fifo_inv (step env s e)"
proof (cases e)
  case (Assign job)
  assume "fifo_inv s"
  with Assign show ?thesis by (simp add: fifo_inv_def next_job_id_def Let_def)
next
  case (Put n)
  assume "fifo_inv s"
  with Put show ?thesis by (simp add: fifo_inv_def q_put_def)
next
  case Stop
  assume "fifo_inv s"
  with Stop show ?thesis by (simp add: fifo_inv_def stop_current_def)
next
  case Tick
  assume "fifo_inv s"
  with Tick show ?thesis by (simp add: fifo_inv_worker_step)
next
  case (Elapse dt)
  assume "fifo_inv s"
  with Elapse show ?thesis by (simp add: fifo_inv_def)
qed

lemma fifo_inv_run: "fifo_inv s \<Longrightarrow> fifo_inv (run env s es)"
  by (induction es arbitrary: s) (simp_all add: fifo_inv_step)

lemma two_jobs_run:
  "run env0 (DisplayManager_init (Some (64, 64)) 0) two_jobs =
      \<lparr>job_q = [], current_job = None, cancel_evt = False, next_id = 3, running = True,
       matrix = Some (64, 64), sink = [Clear], now = 0.06, worker = At_get, pending = [],
       assigned = [1, 2], put_log = [1, 2], pop_log = [1, 2], shown_log = [1, 2]\<rparr>"
  by (simp add: two_jobs_def DisplayManager_init_def Job_new_def next_job_id_def q_put_def
      worker_step_def dispatch_def sleep_def clear_matrix_def Let_def)

text \<open>
  C1. From the initial state, under every schedule of callers, worker steps and passing
  time: the ids the worker has taken from the queue, followed by the ids still queued,
  are the ids in the order in which they were put; the ids handed to the render dispatch
  are an initial segment of that order; and once the queue is empty and the worker holds
  no undispatched job, the dispatched ids are exactly the ids put, in the same order.
\<close>

theorem worker_fifo:
  "pop_log (run env (DisplayManager_init m t0) es)
       @ map jid (job_q (run env (DisplayManager_init m t0) es))
     = put_log (run env (DisplayManager_init m t0) es)
   \<and> prefix (shown_log (run env (DisplayManager_init m t0) es))
       (put_log (run env (DisplayManager_init m t0) es))
   \<and> (job_q (run env (DisplayManager_init m t0) es) = []
        \<and> in_hand (worker (run env (DisplayManager_init m t0) es)) = []
      \<longrightarrow> shown_log (run env (DisplayManager_init m t0) es)
          = put_log (run env (DisplayManager_init m t0) es))"
proof -
  let ?s = "run env (DisplayManager_init m t0) es"
  have inv: "fifo_inv ?s" by (rule fifo_inv_run [OF fifo_inv_init])
  then have a: "pop_log ?s @ map jid (job_q ?s) = put_log ?s"
    and b: "shown_log ?s @ in_hand (worker ?s) = pop_log ?s"
    by (simp_all add: fifo_inv_def)
  from a b have "shown_log ?s @ (in_hand (worker ?s) @ map jid (job_q ?s)) = put_log ?s"
    by (metis append_assoc)
  then have p: "prefix (shown_log ?s) (put_log ?s)" by (metis prefixI)
  from a b have "job_q ?s = [] \<and> in_hand (worker ?s) = [] \<longrightarrow> shown_log ?s = put_log ?s"
    by auto
  with a p show ?thesis by blast
qed


theorem worker_fifo_witness:
  "job_q (run env0 (DisplayManager_init (Some (64, 64)) 0) two_jobs) = []
   \<and> in_hand (worker (run env0 (DisplayManager_init (Some (64, 64)) 0) two_jobs)) = []
   \<and> shown_log (run env0 (DisplayManager_init (Some (64, 64)) 0) two_jobs) = [1, 2]
   \<and> put_log (run env0 (DisplayManager_init (Some (64, 64)) 0) two_jobs) = [1, 2]"
proof -
  note r = two_jobs_run
  from worker_fifo [of env0 "Some (64, 64)" 0 two_jobs] show ?thesis
    by (simp add: r in_hand_def)
qed

section \<open>Ids and enqueue\<close>

lemma id_inv_init: "id_inv (DisplayManager_init m t0)"
  by (simp add: id_inv_def DisplayManager_init_def)

lemma id_inv_next_job_id: "id_inv s \<Longrightarrow> id_inv (snd (next_job_id s))"
  by (auto simp: id_inv_def next_job_id_def Let_def sorted_wrt_append)

lemma worker_step_ids:
  "assigned (worker_step env s) = assigned s \<and> next_id (worker_step env s) = next_id s"
proof (cases "worker s")
  case (At_dispatch j)
  let ?s1 = "s\<lparr>shown_log := shown_log s @ [jid j]\<rparr>"
  from control_eqD [OF control_dispatch [of env j ?s1] ] At_dispatch show ?thesis
    by (simp add: worker_step_def)
next
  case (In_render r)
  show ?thesis
  proof (cases "render_turn env r s")
    case Return
    with In_render show ?thesis by (simp add: worker_step_def)
  next
    case (Raise e s1)
    from control_eqD [OF control_turn_Raise [OF Raise] ] In_render Raise show ?thesis
      by (simp add: worker_step_def)
  next
    case (Again r1 s1)
    from control_eqD [OF control_turn_Again [OF Again] ] In_render Again show ?thesis
      by (simp add: worker_step_def)
  qed
qed (simp_all add: worker_step_def split: list.splits)

lemma id_inv_step: "id_inv s \<Longrightarrow> id_inv (step env s e)"
proof (cases e)
  case (Assign job)
  assume "id_inv s"
  then have "id_inv (snd (next_job_id s))" by (rule id_inv_next_job_id)
  with Assign show ?thesis by (simp add: id_inv_def case_prod_beta)
next
  case (Put n)
  assume "id_inv s"
  with Put show ?thesis by (simp add: id_inv_def q_put_def)
next
  case Stop
  assume "id_inv s"
  with Stop show ?thesis by (simp add: id_inv_def stop_current_def)
next
  case Tick
  assume "id_inv s"
  with Tick show ?thesis by (simp add: id_inv_def worker_step_ids)
next
  case (Elapse dt)
  assume "id_inv s"
  with Elapse show ?thesis by (simp add: id_inv_def)
qed

lemma id_inv_run: "id_inv s \<Longrightarrow> id_inv (run env s es)"
  by (induction es arbitrary: s) (simp_all add: id_inv_step)

text \<open>
  A caller that runs both statements of \<^verbatim>\<open>enqueue\<close> without another thread in
  between: the two events together are the method.
\<close>

lemma enqueue_as_events:
  "run env s [Assign job, Put (length (pending s))] = snd (enqueue s job)"
  by (simp add: enqueue_def next_job_id_def q_put_def Let_def)

text \<open>
  C5 (as amended). In every state reached from the initial one, \<^verbatim>\<open>enqueue\<close> of any
  job whatsoever returns the current value of the counter, which is greater than every
  id assigned before; the ids assigned stay strictly increasing, so none is reused; the
  counter moves on by one; and the job, carrying that id, is appended to the queue.
  There is no validation and no failure.
\<close>

theorem enqueue_fresh_id:
  "fst (enqueue (run env (DisplayManager_init m t0) es) job)
     = next_id (run env (DisplayManager_init m t0) es)
   \<and> (\<forall>i\<in>set (assigned (run env (DisplayManager_init m t0) es)).
         i < fst (enqueue (run env (DisplayManager_init m t0) es) job))
   \<and> sorted_wrt (<) (assigned (snd (enqueue (run env (DisplayManager_init m t0) es) job)))
   \<and> assigned (snd (enqueue (run env (DisplayManager_init m t0) es) job))
     = assigned (run env (DisplayManager_init m t0) es)
       @ [fst (enqueue (run env (DisplayManager_init m t0) es) job)]
   \<and> next_id (snd (enqueue (run env (DisplayManager_init m t0) es) job))
     = fst (enqueue (run env (DisplayManager_init m t0) es) job) + 1
   \<and> job_q (snd (enqueue (run env (DisplayManager_init m t0) es) job))
     = job_q (run env (DisplayManager_init m t0) es)
       @ [job\<lparr>jid := fst (enqueue (run env (DisplayManager_init m t0) es) job)\<rparr>]"
proof -
  let ?s = "run env (DisplayManager_init m t0) es"
  have "id_inv ?s" by (rule id_inv_run [OF id_inv_init])
  then have a: "sorted_wrt (<) (assigned ?s)" and b: "\<forall>i\<in>set (assigned ?s). i < next_id ?s"
    by (simp_all add: id_inv_def)
  have e: "enqueue ?s job =
      (next_id ?s, ?s\<lparr>next_id := next_id ?s + 1, assigned := assigned ?s @ [next_id ?s],
         job_q := job_q ?s @ [job\<lparr>jid := next_id ?s\<rparr>],
         put_log := put_log ?s @ [next_id ?s]\<rparr>)"
    by (simp add: enqueue_def next_job_id_def q_put_def Let_def)
  from a b show ?thesis by (simp add: e sorted_wrt_append)
qed

theorem enqueue_fresh_id_witness:
  "assigned (run env0 (DisplayManager_init (Some (64, 64)) 0) two_jobs) = [1, 2]
   \<and> fst (enqueue (run env0 (DisplayManager_init (Some (64, 64)) 0) two_jobs) invalid_job) = 3
   \<and> assigned (snd (enqueue (run env0 (DisplayManager_init (Some (64, 64)) 0) two_jobs)
         invalid_job)) = [1, 2, 3]
   \<and> job_q (snd (enqueue (run env0 (DisplayManager_init (Some (64, 64)) 0) two_jobs)
         invalid_job)) = [invalid_job\<lparr>jid := 3\<rparr>]"
proof -
  note r = two_jobs_run
  from enqueue_fresh_id [of env0 "Some (64, 64)" 0 two_jobs invalid_job] show ?thesis
    by (simp add: r)
qed

text \<open>
  C5 as stated fails: a job that violates the invariants of the data model is given
  id 1 and queued.
\<close>

theorem enqueue_accepts_invalid_job:
  "\<not> spec_job_invariants invalid_job
   \<and> fst (enqueue (DisplayManager_init (Some (64, 64)) 0) invalid_job) = 1
   \<and> job_q (snd (enqueue (DisplayManager_init (Some (64, 64)) 0) invalid_job))
     = [invalid_job\<lparr>jid := 1\<rparr>]"
  by (simp add: spec_job_invariants_def invalid_job_def Job_new_def enqueue_def next_job_id_def
      q_put_def DisplayManager_init_def Let_def)


section \<open>The cancel event is cleared for every job\<close>

lemma stop_sim_step:
  assumes "b = a \<or> (b = a\<lparr>cancel_evt := True\<rparr> \<and> before_clear (worker a))"
  shows "step env b e = step env a e
     \<or> (step env b e = (step env a e)\<lparr>cancel_evt := True\<rparr> \<and> before_clear (worker (step env a e)))"
proof (cases "b = a")
  case True
  then show ?thesis by simp
next
  case False
  with assms have b: "b = a\<lparr>cancel_evt := True\<rparr>" and w: "before_clear (worker a)" by simp_all
  show ?thesis
  proof (cases e)
    case (Assign job)
    with b w show ?thesis by (simp add: next_job_id_def Let_def)
  next
    case (Put n)
    with b w show ?thesis by (simp add: q_put_def)
  next
    case Stop
    with b show ?thesis by (simp add: stop_current_def)
  next
    case Tick
    from w consider "worker a = At_get" | j where "worker a = At_clear j"
      | x where "worker a = Dead x" | "worker a = Stopped"
      by (auto simp: before_clear_def split: wpc.splits)
    then show ?thesis
    proof cases
      case 1
      with b Tick show ?thesis
        by (simp add: worker_step_def before_clear_def split: list.splits)
    next
      case 2
      with b Tick show ?thesis by (simp add: worker_step_def)
    next
      case 3
      with b Tick show ?thesis by (simp add: worker_step_def before_clear_def)
    next
      case 4
      with b Tick show ?thesis by (simp add: worker_step_def before_clear_def)
    qed
  next
    case (Elapse dt)
    with b w show ?thesis by simp
  qed
qed

lemma stop_sim_run:
  "b = a \<or> (b = a\<lparr>cancel_evt := True\<rparr> \<and> before_clear (worker a)) \<Longrightarrow>
   run env b es = run env a es
     \<or> (run env b es = (run env a es)\<lparr>cancel_evt := True\<rparr> \<and> before_clear (worker (run env a es)))"
proof (induction es arbitrary: a b)
  case Nil
  then show ?case by simp
next
  case (Cons e es)
  from stop_sim_step [OF Cons.prems] show ?case
    by (simp add: Cons.IH)
qed

text \<open>
  A job is current from its dispatch to the end of its \<^verbatim>\<open>finally\<close> block, in every
  state the manager can reach.
\<close>

lemma published_init: "published (DisplayManager_init m t0)"
  by (simp add: published_def DisplayManager_init_def)

lemma published_dispatch:
  assumes "current_job s \<noteq> None"
  shows "published (dispatch env job s)"
proof -
  have "control (dispatch env job s) = control s" by (rule control_dispatch)
  then have "current_job (dispatch env job s) = current_job s" by (rule control_eqD(2))
  with assms show ?thesis by (simp add: published_def split: wpc.splits)
qed

lemma published_worker_step:
  assumes "published s"
  shows "published (worker_step env s)"
proof (cases "worker s")
  case At_get
  then show ?thesis by (simp add: worker_step_def published_def split: list.splits)
next
  case (At_clear j)
  then show ?thesis by (simp add: worker_step_def published_def)
next
  case (At_publish j)
  then show ?thesis by (simp add: worker_step_def published_def)
next
  case (At_dispatch j)
  with assms have "current_job (s\<lparr>shown_log := shown_log s @ [jid j]\<rparr>) \<noteq> None"
    by (simp add: published_def)
  then have "published (dispatch env j (s\<lparr>shown_log := shown_log s @ [jid j]\<rparr>))"
    by (rule published_dispatch)
  with At_dispatch show ?thesis by (simp add: worker_step_def)
next
  case (In_render r)
  with assms have c: "current_job s \<noteq> None" by (simp add: published_def)
  show ?thesis
  proof (cases "render_turn env r s")
    case Return
    with In_render c show ?thesis by (simp add: worker_step_def published_def)
  next
    case (Raise e s1)
    from control_eqD(2) [OF control_turn_Raise [OF Raise]] In_render Raise c show ?thesis
      by (simp add: worker_step_def published_def)
  next
    case (Again r1 s1)
    from control_eqD(2) [OF control_turn_Again [OF Again]] In_render Again c show ?thesis
      by (simp add: worker_step_def published_def)
  qed
next
  case (At_finally exc)
  then show ?thesis by (simp add: worker_step_def published_def split: option.splits)
next
  case (Dead e)
  with assms show ?thesis by (simp add: worker_step_def)
next
  case Stopped
  with assms show ?thesis by (simp add: worker_step_def)
qed

lemma published_step: "published s \<Longrightarrow> published (step env s e)"
proof (cases e)
  case (Assign job)
  assume "published s"
  with Assign show ?thesis
    by (cases "worker s") (simp_all add: published_def next_job_id_def Let_def)
next
  case (Put n)
  assume "published s"
  with Put show ?thesis by (cases "worker s") (simp_all add: published_def q_put_def)
next
  case Stop
  assume "published s"
  with Stop show ?thesis by (cases "worker s") (simp_all add: published_def stop_current_def)
next
  case Tick
  assume "published s"
  with Tick show ?thesis by (simp add: published_worker_step)
next
  case (Elapse dt)
  assume "published s"
  with Elapse show ?thesis by (cases "worker s") (simp_all add: published_def)
qed

lemma published_run: "published s \<Longrightarrow> published (run env s es)"
  by (induction es arbitrary: s) (simp_all add: published_step)

lemma no_current_job_position:
  assumes "published s" "current_job s = None"
  shows "before_clear (worker s) \<or> (\<exists>i. worker s = At_publish i)"
  using assms by (cases "worker s") (simp_all add: published_def before_clear_def)

text \<open>
  C6 (as amended). Whatever the cancel event holds when the worker takes a job from the
  queue, the worker clears it before it publishes and dispatches that job. In every
  state the manager can reach in which no job is current, the worker either holds no job
  or has not yet cleared the event for the job it holds (or its thread has ended), or it
  is in the window between the clear and the publication of a job it has taken. Outside
  that window a call of \<^verbatim>\<open>stop_current\<close> changes nothing but the event itself: under
  every later schedule the run with the call and the run without it are equal, or differ
  in the event alone while the worker has not reached its next clear; sink, worker
  position, current job and dispatched ids are the same. Inside the window the call
  counts for the job just taken: the job is published and dispatched with the event set.
  The call cannot fail and is idempotent.
\<close>

theorem cancel_cleared_per_job:
  "(worker s = At_get \<and> running s \<and> job_q s = j # q \<longrightarrow>
      worker (run env s [Tick, Tick, Tick]) = At_dispatch j
      \<and> \<not> cancel_evt (run env s [Tick, Tick, Tick])
      \<and> current_job (run env s [Tick, Tick, Tick]) = Some j)
   \<and> (s = run env (DisplayManager_init m t0) es0 \<and> current_job s = None \<longrightarrow>
        before_clear (worker s) \<or> (\<exists>i. worker s = At_publish i))
   \<and> (before_clear (worker s) \<longrightarrow>
        (run env (stop_current s) es = run env s es
         \<or> (run env (stop_current s) es = (run env s es)\<lparr>cancel_evt := True\<rparr>
            \<and> before_clear (worker (run env s es))))
        \<and> sink (run env (stop_current s) es) = sink (run env s es)
        \<and> worker (run env (stop_current s) es) = worker (run env s es)
        \<and> current_job (run env (stop_current s) es) = current_job (run env s es)
        \<and> shown_log (run env (stop_current s) es) = shown_log (run env s es))
   \<and> (worker s = At_publish j \<longrightarrow>
        worker (run env (stop_current s) [Tick]) = At_dispatch j
        \<and> cancel_evt (run env (stop_current s) [Tick])
        \<and> current_job (run env (stop_current s) [Tick]) = Some j)
   \<and> stop_current (stop_current s) = stop_current s"
proof -
  have one: "worker s = At_get \<and> running s \<and> job_q s = j # q \<longrightarrow>
      worker (run env s [Tick, Tick, Tick]) = At_dispatch j
      \<and> \<not> cancel_evt (run env s [Tick, Tick, Tick])
      \<and> current_job (run env s [Tick, Tick, Tick]) = Some j"
    by (simp add: worker_step_def)
  have pos: "before_clear (worker s) \<or> (\<exists>i. worker s = At_publish i)"
    if "s = run env (DisplayManager_init m t0) es0" "current_job s = None"
  proof -
    have "published (run env (DisplayManager_init m t0) es0)"
      by (rule published_run [OF published_init])
    with that show ?thesis by (simp add: no_current_job_position)
  qed
  have two: "run env (stop_current s) es = run env s es
         \<or> (run env (stop_current s) es = (run env s es)\<lparr>cancel_evt := True\<rparr>
            \<and> before_clear (worker (run env s es)))" if "before_clear (worker s)"
    by (rule stop_sim_run) (simp add: stop_current_def that)
  have three: "sink (run env (stop_current s) es) = sink (run env s es)
        \<and> worker (run env (stop_current s) es) = worker (run env s es)
        \<and> current_job (run env (stop_current s) es) = current_job (run env s es)
        \<and> shown_log (run env (stop_current s) es) = shown_log (run env s es)"
    if "before_clear (worker s)"
    using two [OF that] by auto
  have win: "worker (run env (stop_current s) [Tick]) = At_dispatch j
        \<and> cancel_evt (run env (stop_current s) [Tick])
        \<and> current_job (run env (stop_current s) [Tick]) = Some j"
    if "worker s = At_publish j"
    using that by (simp add: worker_step_def stop_current_def)
  have four: "stop_current (stop_current s) = stop_current s"
    by (simp add: stop_current_def)
  from one pos two three win four show ?thesis by blast
qed

lemma stale_stop_state:
  "stale_stop = (DisplayManager_init (Some (64, 64)) 0)\<lparr>cancel_evt := True, next_id := 2,
      assigned := [1], job_q := [text_job\<lparr>jid := 1\<rparr>], put_log := [1]\<rparr>"
  by (simp add: stale_stop_def stop_current_def next_job_id_def q_put_def DisplayManager_init_def
      Let_def)

lemma in_window_state:
  "in_window = (DisplayManager_init (Some (64, 64)) 0)\<lparr>next_id := 2, assigned := [1],
      put_log := [1], pop_log := [1], worker := At_publish gif_job\<rparr>"
  by (simp add: in_window_def gif_job_def Job_new_def next_job_id_def q_put_def worker_step_def
      DisplayManager_init_def Let_def)

theorem cancel_cleared_per_job_witness:
  "worker stale_stop = At_get \<and> running stale_stop \<and> cancel_evt stale_stop
   \<and> current_job stale_stop = None
   \<and> job_q stale_stop = [text_job\<lparr>jid := 1\<rparr>]
   \<and> worker (run env0 stale_stop [Tick, Tick, Tick]) = At_dispatch (text_job\<lparr>jid := 1\<rparr>)
   \<and> \<not> cancel_evt (run env0 stale_stop [Tick, Tick, Tick])
   \<and> before_clear (worker stale_stop)
   \<and> sink (run env0 (stop_current stale_stop) [Tick, Tick, Tick, Tick, Tick])
     = sink (run env0 stale_stop [Tick, Tick, Tick, Tick, Tick])
   \<and> worker in_window = At_publish gif_job
   \<and> cancel_evt (run env0 (stop_current in_window) [Tick])"
proof -
  have h: "worker stale_stop = At_get \<and> running stale_stop \<and> cancel_evt stale_stop
      \<and> current_job stale_stop = None \<and> job_q stale_stop = [text_job\<lparr>jid := 1\<rparr>]"
    by (simp add: stale_stop_state DisplayManager_init_def)
  have r: "stale_stop = run env0 (DisplayManager_init (Some (64, 64)) 0)
      [Stop, Assign text_job, Put 0]"
    by (rule stale_stop_def)
  from h r cancel_cleared_per_job [where s = stale_stop and j = "text_job\<lparr>jid := 1\<rparr>"
      and q = "[]" and env = env0 and m = "Some (64, 64)" and ?t0.0 = 0
      and ?es0.0 = "[Stop, Assign text_job, Put 0]" and es = "[Tick, Tick, Tick, Tick, Tick]"]
  have a: "worker (run env0 stale_stop [Tick, Tick, Tick]) = At_dispatch (text_job\<lparr>jid := 1\<rparr>)
     \<and> \<not> cancel_evt (run env0 stale_stop [Tick, Tick, Tick])
     \<and> before_clear (worker stale_stop)
     \<and> sink (run env0 (stop_current stale_stop) [Tick, Tick, Tick, Tick, Tick])
       = sink (run env0 stale_stop [Tick, Tick, Tick, Tick, Tick])"
    by (simp add: before_clear_def)
  have w: "worker in_window = At_publish gif_job" by (simp add: in_window_state)
  from w cancel_cleared_per_job [where s = in_window and j = gif_job and env = env0]
  have b: "cancel_evt (run env0 (stop_current in_window) [Tick])" by blast
  from h a w b show ?thesis by blast
qed

text \<open>
  C6 as stated fails: the worker has taken a job and cleared the event and has not yet
  published the job, so no job is current and the status shows none. A call of
  \<^verbatim>\<open>stop_current\<close> at this moment is no no-op: the job is over after four more steps
  of the worker and nothing has reached the sink, while without the call the first two
  frames have been shown by then.
\<close>

theorem stop_in_window_cancels_job:
  "current_job in_window = None
   \<and> status in_window = (None, None, 0)
   \<and> sink (run env0 (stop_current in_window) [Tick, Tick, Tick, Tick]) = []
   \<and> worker (run env0 (stop_current in_window) [Tick, Tick, Tick, Tick]) = At_get
   \<and> sink (run env0 in_window [Tick, Tick, Tick, Tick]) = [SetImage [10], SetImage [11] ]"
  by (simp add: in_window_state gif_job_def Job_new_def status_def stop_current_def
      DisplayManager_init_def worker_step_def dispatch_def enter_def truthy_def or_default_def
      display_gif_def display_gif_turn_def loop_guard_def py_index_def py_mod_def dims_def
      set_image_def sleep_def env0_def Let_def)


section \<open>Image jobs: missing content, and frames before the still image\<close>

text \<open>
  C10. An image job with neither a still image nor frames: the dispatch goes straight to
  the \<^verbatim>\<open>finally\<close> block without an exception, writing nothing and taking no time;
  the next step clears the current job and the worker is back at the queue, from which
  it takes the next job. With frames present the worker enters the animation routine at
  frame 0, whether or not there is a still image, and writes nothing for the still image.
\<close>

theorem image_job_without_content:
  "(worker s = At_dispatch job \<and> jtype job = IMAGE \<and> \<not> truthy (gif_frames job)
      \<and> jimage job = None \<longrightarrow>
      worker (run env s [Tick]) = At_finally None
      \<and> sink (run env s [Tick]) = sink s
      \<and> now (run env s [Tick]) = now s
      \<and> worker (run env s [Tick, Tick]) = At_get
      \<and> current_job (run env s [Tick, Tick]) = None
      \<and> sink (run env s [Tick, Tick]) = sink s
      \<and> (running s \<and> job_q s = j # q \<longrightarrow> worker (run env s [Tick, Tick, Tick]) = At_clear j))
   \<and> (worker s = At_dispatch job \<and> jtype job = IMAGE \<and> truthy (gif_frames job) \<longrightarrow>
      worker (run env s [Tick])
        = In_render (Gif (the (gif_frames job))
            (or_default (frame_delays job) (replicate (length (the (gif_frames job))) 0.07))
            (duration job) (now s) 0)
      \<and> sink (run env s [Tick]) = sink s)"
  by (simp add: worker_step_def dispatch_def enter_def display_gif_def)

theorem image_job_without_content_witness:
  "worker (at_dispatch empty_image_job) = At_dispatch empty_image_job
   \<and> jtype empty_image_job = IMAGE \<and> \<not> truthy (gif_frames empty_image_job)
   \<and> jimage empty_image_job = None
   \<and> running (at_dispatch empty_image_job)
   \<and> job_q (at_dispatch empty_image_job) = [text_job\<lparr>jid := 2\<rparr>]
   \<and> sink (run env0 (at_dispatch empty_image_job) [Tick, Tick]) = []
   \<and> current_job (run env0 (at_dispatch empty_image_job) [Tick, Tick]) = None
   \<and> worker (run env0 (at_dispatch empty_image_job) [Tick, Tick, Tick])
     = At_clear (text_job\<lparr>jid := 2\<rparr>)
   \<and> worker (at_dispatch both_image_job) = At_dispatch both_image_job
   \<and> jtype both_image_job = IMAGE \<and> truthy (gif_frames both_image_job)
   \<and> jimage both_image_job = Some [1, 2]
   \<and> worker (run env0 (at_dispatch both_image_job) [Tick])
     = In_render (Gif [ [3], [4] ] [0.07, 0.07] None 0 0)"
proof -
  have h1: "worker (at_dispatch empty_image_job) = At_dispatch empty_image_job
      \<and> jtype empty_image_job = IMAGE \<and> \<not> truthy (gif_frames empty_image_job)
      \<and> jimage empty_image_job = None \<and> running (at_dispatch empty_image_job)
      \<and> job_q (at_dispatch empty_image_job) = [text_job\<lparr>jid := 2\<rparr>]
      \<and> sink (at_dispatch empty_image_job) = []"
    by (simp add: at_dispatch_def empty_image_job_def Job_new_def truthy_def
        DisplayManager_init_def)
  have h2: "worker (at_dispatch both_image_job) = At_dispatch both_image_job
      \<and> jtype both_image_job = IMAGE \<and> truthy (gif_frames both_image_job)
      \<and> jimage both_image_job = Some [1, 2] \<and> now (at_dispatch both_image_job) = 0
      \<and> the (gif_frames both_image_job) = [ [3], [4] ] \<and> duration both_image_job = None
      \<and> or_default (frame_delays both_image_job) (replicate (length [ [3::nat], [4] ]) 0.07)
        = [0.07, 0.07]"
    by (simp add: at_dispatch_def both_image_job_def Job_new_def truthy_def or_default_def
        DisplayManager_init_def numeral_2_eq_2)
  from h1 image_job_without_content [of "at_dispatch empty_image_job" empty_image_job env0
      "text_job\<lparr>jid := 2\<rparr>" "[]"]
  have a: "sink (run env0 (at_dispatch empty_image_job) [Tick, Tick]) = []
     \<and> current_job (run env0 (at_dispatch empty_image_job) [Tick, Tick]) = None
     \<and> worker (run env0 (at_dispatch empty_image_job) [Tick, Tick, Tick])
       = At_clear (text_job\<lparr>jid := 2\<rparr>)"
    by simp
  from h2 image_job_without_content [of "at_dispatch both_image_job" both_image_job env0]
  have b: "worker (run env0 (at_dispatch both_image_job) [Tick])
     = In_render (Gif [ [3], [4] ] [0.07, 0.07] None 0 0)"
    by simp
  from h1 h2 a b show ?thesis by blast
qed


section \<open>The animation routine\<close>

lemma run_snoc: "run env s (es @ [e]) = step env (run env s es) e"
  by (induction es arbitrary: s) simp_all

lemma run_ticks_Suc:
  "run env s (replicate (Suc k) Tick) = worker_step env (run env s (replicate k Tick))"
  using run_snoc [of env s "replicate k Tick" Tick] by (simp add: replicate_append_same)

lemma gif_turn_ok:
  assumes "loop_guard s dur start" "i < length frames" "i < length delays"
    "matrix s = Some (w, h)"
  shows "display_gif_turn env frames delays dur start i s =
     Again (Gif frames delays dur start (Suc i mod length frames))
       (s\<lparr>sink := sink s @ [SetImage (fit env NEAREST (frames ! i) w h)],
          now := now s + max 0.01 (delays ! i)\<rparr>)"
proof -
  from assms(2) have "frames \<noteq> []" by auto
  with assms show ?thesis
    by (simp add: display_gif_turn_def py_index_def py_mod_def dims_def set_image_def sleep_def)
qed

lemma gif_turns:
  assumes w: "worker s = In_render (Gif frames delays dur start 0)"
    and ne: "frames \<noteq> []" and len: "length frames \<le> length delays"
    and m: "matrix s = Some (w, h)" and c: "\<not> cancel_evt s"
    and g: "\<forall>j<k. case dur of None \<Rightarrow> True
         | Some d \<Rightarrow> now s + gif_time delays (length frames) j - start < d"
  shows "run env s (replicate k Tick) =
     s\<lparr>worker := In_render (Gif frames delays dur start (k mod length frames)),
        sink := sink s @ map (\<lambda>j. SetImage (fit env NEAREST (frames ! (j mod length frames)) w h))
                  [0..<k],
        now := now s + gif_time delays (length frames) k\<rparr>"
  using g
proof (induction k)
  case 0
  with w show ?case by (simp add: gif_time_def)
next
  case (Suc k)
  let ?n = "length frames"
  let ?sk = "s\<lparr>worker := In_render (Gif frames delays dur start (k mod ?n)),
        sink := sink s @ map (\<lambda>j. SetImage (fit env NEAREST (frames ! (j mod ?n)) w h)) [0..<k],
        now := now s + gif_time delays ?n k\<rparr>"
  from Suc.prems have "\<forall>j<k. case dur of None \<Rightarrow> True
         | Some d \<Rightarrow> now s + gif_time delays ?n j - start < d"
    by simp
  then have sk: "run env s (replicate k Tick) = ?sk" by (rule Suc.IH)
  from ne have i: "k mod ?n < ?n" by simp
  with len have i': "k mod ?n < length delays" by simp
  from Suc.prems have "case dur of None \<Rightarrow> True
         | Some d \<Rightarrow> now s + gif_time delays ?n k - start < d"
    by simp
  with c have guard: "loop_guard ?sk dur start"
    by (simp add: loop_guard_def split: option.splits)
  have mk: "matrix ?sk = Some (w, h)" using m by simp
  have t: "gif_time delays ?n (Suc k) = gif_time delays ?n k + max 0.01 (delays ! (k mod ?n))"
    by (simp add: gif_time_def hold_time_def)
  show ?case
    by (simp only: run_ticks_Suc sk)
      (simp add: worker_step_def gif_turn_ok [OF guard i i' mk] mod_Suc_eq t add.assoc)
qed

lemma gif_exit:
  assumes "worker s = In_render (Gif frames delays (Some d) start i)" "d \<le> now s - start"
  shows "worker_step env s = s\<lparr>worker := At_finally None\<rparr>"
  using assms by (simp add: worker_step_def display_gif_turn_def loop_guard_def)

text \<open>
  C7. A job with frames, of which each has a delay, on a manager with a matrix: as long
  as the job is not cancelled and its duration, if any, has not passed when a frame is
  due, the worker writes frame 0, 1, \<dots>, n - 1, 0, 1, \<dots> in this order (after \<open>k\<close>
  frames the index is \<open>k mod n\<close>), and after frame \<open>j\<close> it sleeps for that frame's
  own delay, raised to 0.01 seconds if it is less. At the first check at which the
  duration has passed the routine returns and writes nothing more.
\<close>

theorem gif_cycle:
  assumes "worker s = At_dispatch job" and "jtype job = IMAGE"
    and "gif_frames job = Some frames" and "frames \<noteq> []"
    and "delays = or_default (frame_delays job) (replicate (length frames) 0.07)"
    and "length frames \<le> length delays"
    and "matrix s = Some (w, h)" and "\<not> cancel_evt s"
    and "\<forall>j<k. case duration job of None \<Rightarrow> True
           | Some d \<Rightarrow> gif_time delays (length frames) j < d"
  shows "worker (run env s (Tick # replicate k Tick))
      = In_render (Gif frames delays (duration job) (now s) (k mod length frames))
    \<and> sink (run env s (Tick # replicate k Tick))
      = sink s @ map (\<lambda>j. SetImage (fit env NEAREST (frames ! (j mod length frames)) w h)) [0..<k]
    \<and> now (run env s (Tick # replicate k Tick))
      = now s + sum_list (map (\<lambda>j. max 0.01 (delays ! (j mod length frames))) [0..<k])
    \<and> (\<forall>j<k. now (run env s (Tick # replicate (Suc j) Tick))
           - now (run env s (Tick # replicate j Tick))
         = max 0.01 (delays ! (j mod length frames)))
    \<and> (\<forall>d. duration job = Some d \<and> d \<le> gif_time delays (length frames) k \<longrightarrow>
         worker (run env s (Tick # replicate (Suc k) Tick)) = At_finally None
         \<and> sink (run env s (Tick # replicate (Suc k) Tick))
           = sink (run env s (Tick # replicate k Tick)))"
proof -
  let ?n = "length frames"
  let ?s1 = "s\<lparr>shown_log := shown_log s @ [jid job],
      worker := In_render (Gif frames delays (duration job) (now s) 0)\<rparr>"
  let ?R = "\<lambda>k. run env s (Tick # replicate k Tick)"
  from assms(1-5) have d: "worker_step env s = ?s1"
    by (simp add: worker_step_def dispatch_def truthy_def enter_def display_gif_def)
  have R: "?R j = ?s1\<lparr>worker := In_render (Gif frames delays (duration job) (now s) (j mod ?n)),
        sink := sink s @ map (\<lambda>j. SetImage (fit env NEAREST (frames ! (j mod ?n)) w h)) [0..<j],
        now := now s + gif_time delays ?n j\<rparr>" if "j \<le> k" for j
  proof -
    from that assms(9) have g: "\<forall>i<j. case duration job of None \<Rightarrow> True
           | Some d \<Rightarrow> now ?s1 + gif_time delays ?n i - now s < d"
      by (auto split: option.splits)
    have "run env ?s1 (replicate j Tick) =
       ?s1\<lparr>worker := In_render (Gif frames delays (duration job) (now s) (j mod ?n)),
        sink := sink ?s1 @ map (\<lambda>j. SetImage (fit env NEAREST (frames ! (j mod ?n)) w h)) [0..<j],
        now := now ?s1 + gif_time delays ?n j\<rparr>"
      by (rule gif_turns [OF _ assms(4) assms(6) _ _ g]) (simp_all add: assms(7,8))
    then show ?thesis by (simp add: d)
  qed
  have Rk: "worker (?R k) = In_render (Gif frames delays (duration job) (now s) (k mod ?n))"
    "sink (?R k) = sink s @ map (\<lambda>j. SetImage (fit env NEAREST (frames ! (j mod ?n)) w h)) [0..<k]"
    "now (?R k) = now s + gif_time delays ?n k"
    using R [of k] by simp_all
  have t: "gif_time delays ?n j = sum_list (map (\<lambda>j. max 0.01 (delays ! (j mod ?n))) [0..<j])"
    for j
    by (simp add: gif_time_def hold_time_def [abs_def])
  have steps: "\<forall>j<k. now (?R (Suc j)) - now (?R j) = max 0.01 (delays ! (j mod ?n))"
  proof (intro allI impI)
    fix j assume "j < k"
    then have "now (?R (Suc j)) = now s + gif_time delays ?n (Suc j)"
      and "now (?R j) = now s + gif_time delays ?n j"
      using R [of "Suc j"] R [of j] by simp_all
    then show "now (?R (Suc j)) - now (?R j) = max 0.01 (delays ! (j mod ?n))"
      by (simp add: t)
  qed
  have fin: "\<forall>d. duration job = Some d \<and> d \<le> gif_time delays ?n k \<longrightarrow>
         worker (?R (Suc k)) = At_finally None \<and> sink (?R (Suc k)) = sink (?R k)"
  proof (intro allI impI)
    fix d assume a: "duration job = Some d \<and> d \<le> gif_time delays ?n k"
    have "?R (Suc k) = worker_step env (?R k)"
      using run_ticks_Suc [of env "worker_step env s" k] by simp
    also have "\<dots> = (?R k)\<lparr>worker := At_finally None\<rparr>"
      by (rule gif_exit [where d = d]) (use a Rk in auto)
    finally show "worker (?R (Suc k)) = At_finally None \<and> sink (?R (Suc k)) = sink (?R k)"
      by simp
  qed
  from Rk steps fin show ?thesis by (simp only: t)
qed

lemma upt_4: "[0..<4] = [0, 1, 2, 3]"
  by (simp add: upt_rec)

theorem gif_cycle_witness:
  "worker (at_dispatch gif_job) = At_dispatch gif_job \<and> jtype gif_job = IMAGE
   \<and> gif_frames gif_job = Some [ [10], [11], [12] ]
   \<and> or_default (frame_delays gif_job) (replicate 3 0.07) = [0.1, 0.2, 0.005]
   \<and> matrix (at_dispatch gif_job) = Some (64, 64) \<and> \<not> cancel_evt (at_dispatch gif_job)
   \<and> duration gif_job = None
   \<and> worker (run env0 (at_dispatch gif_job) (Tick # replicate 4 Tick))
     = In_render (Gif [ [10], [11], [12] ] [0.1, 0.2, 0.005] None 0 1)
   \<and> sink (run env0 (at_dispatch gif_job) (Tick # replicate 4 Tick))
     = [SetImage [10], SetImage [11], SetImage [12], SetImage [10] ]
   \<and> now (run env0 (at_dispatch gif_job) (Tick # replicate 4 Tick)) = 0.41"
proof -
  have h: "worker (at_dispatch gif_job) = At_dispatch gif_job" "jtype gif_job = IMAGE"
    "gif_frames gif_job = Some [ [10], [11], [12] ]" "[ [10], [11], [12::nat] ] \<noteq> []"
    "[0.1, 0.2, 0.005] = or_default (frame_delays gif_job) (replicate (length [ [10], [11], [12::nat] ]) 0.07)"
    "length [ [10], [11], [12::nat] ] \<le> length [0.1, 0.2, 0.005 :: rat]"
    "matrix (at_dispatch gif_job) = Some (64, 64)" "\<not> cancel_evt (at_dispatch gif_job)"
    "\<forall>j<4. case duration gif_job of None \<Rightarrow> True
          | Some d \<Rightarrow> gif_time [0.1, 0.2, 0.005] (length [ [10], [11], [12::nat] ]) j < d"
    by (simp_all add: at_dispatch_def gif_job_def Job_new_def or_default_def DisplayManager_init_def)
  have s0: "sink (at_dispatch gif_job) = []" "now (at_dispatch gif_job) = 0"
    "duration gif_job = None"
    "or_default (frame_delays gif_job) (replicate 3 0.07) = [0.1, 0.2, 0.005]"
    by (simp_all add: at_dispatch_def gif_job_def Job_new_def DisplayManager_init_def
        or_default_def)
  from gif_cycle [OF h, where env = env0]
  have "worker (run env0 (at_dispatch gif_job) (Tick # replicate 4 Tick))
     = In_render (Gif [ [10], [11], [12] ] [0.1, 0.2, 0.005] None 0 1)
   \<and> sink (run env0 (at_dispatch gif_job) (Tick # replicate 4 Tick))
     = [SetImage [10], SetImage [11], SetImage [12], SetImage [10] ]
   \<and> now (run env0 (at_dispatch gif_job) (Tick # replicate 4 Tick)) = 0.41"
    by (simp add: s0 upt_4 env0_def)
  with h(1,2,3,7,8) s0(3,4) show ?thesis by simp
qed


section \<open>The scrolling text routine\<close>

lemma crop_inside:
  assumes "x + w \<le> length img"
  shows "crop img x (x + w) = Inr (wrap_slice img w x)"
proof -
  have "take w (drop x img @ replicate w 0) = wrap_slice img w x"
  proof (rule nth_equalityI)
    show "length (take w (drop x img @ replicate w 0)) = length (wrap_slice img w x)"
      by (simp add: wrap_slice_def)
  next
    fix c assume "c < length (take w (drop x img @ replicate w 0))"
    then have c: "c < w" by simp
    with assms have "x + c < length img" "c < length img - x" by simp_all
    with c show "take w (drop x img @ replicate w 0) ! c = wrap_slice img w x ! c"
      by (simp add: wrap_slice_def nth_append)
  qed
  then show ?thesis by (simp add: crop_def)
qed

lemma crop_tail:
  assumes "x \<le> length img"
  shows "crop img x (length img) = Inr (drop x img)"
  using assms by (simp add: crop_def)

lemma crop_head:
  assumes "n \<le> length img"
  shows "crop img 0 n = Inr (take n img)"
  using assms by (simp add: crop_def)

lemma paste_two:
  assumes "length r \<le> w" "length l = w - length r"
  shows "paste (paste (new_image w) r 0) l (length r) = r @ l"
  using assms by (simp add: paste_def new_image_def)

lemma scroll_frame_wrap:
  assumes x: "x \<le> length img" and w: "w \<le> length img"
  shows "scroll_frame img w x = Inr (wrap_slice img w x)"
proof (cases "x + w \<le> length img")
  case True
  then show ?thesis by (simp add: scroll_frame_def crop_inside)
next
  case False
  let ?L = "length img"
  let ?r = "drop x img"
  let ?l = "take (w - (?L - x)) img"
  from False x w have lr: "length ?r \<le> w" "length ?l = w - length ?r" by simp_all
  have "?r @ ?l = wrap_slice img w x"
  proof (rule nth_equalityI)
    from False x w show "length (?r @ ?l) = length (wrap_slice img w x)"
      by (simp add: wrap_slice_def)
  next
    fix c assume "c < length (?r @ ?l)"
    with False x w have c: "c < w" by simp
    show "(?r @ ?l) ! c = wrap_slice img w x ! c"
    proof (cases "c < ?L - x")
      case True
      with c show ?thesis by (simp add: wrap_slice_def nth_append)
    next
      case False
      from False have ge: "?L \<le> x + c" by simp
      from c x w have lt: "x + c - ?L < ?L" by simp
      from ge have "(x + c) mod ?L = (x + c - ?L) mod ?L" by (rule le_mod_geq)
      with lt have "(x + c) mod ?L = x + c - ?L" by simp
      moreover from False c x w have "c - (?L - x) = x + c - ?L" by simp
      ultimately show ?thesis using False c x w
        by (simp add: wrap_slice_def nth_append)
    qed
  qed
  moreover have "paste (paste (new_image w) ?r 0) ?l (length ?r) = ?r @ ?l"
    by (rule paste_two [OF lr])
  moreover from False x w
  have "scroll_frame img w x = Inr (paste (paste (new_image w) ?r 0) ?l (length ?r))"
    by (simp add: scroll_frame_def crop_tail crop_head)
  ultimately show ?thesis by (simp only:)
qed

lemma scroll_turn_ok:
  assumes "loop_guard s dur start" "matrix s = Some (w, h)" "0 < text_w + w"
    "scroll_frame img w (Suc x mod (text_w + w)) = Inr f"
  shows "display_text_scroll_turn img text_w dur start x s =
     Again (Scroll img text_w dur start (Suc x mod (text_w + w)))
       (s\<lparr>sink := sink s @ [SetImage f], now := now s + 0.02\<rparr>)"
  using assms
  by (simp add: display_text_scroll_turn_def py_mod_def dims_def set_image_def sleep_def)

lemma scroll_turns:
  assumes wk: "worker s = In_render (Scroll img text_w dur start 0)"
    and m: "matrix s = Some (w, h)" and c: "\<not> cancel_evt s"
    and pos: "0 < text_w + w" and fits: "text_w + w \<le> Suc (length img)"
    and wl: "w \<le> length img"
    and g: "\<forall>j<k. case dur of None \<Rightarrow> True | Some d \<Rightarrow> now s + of_nat j * 0.02 - start < d"
  shows "run env s (replicate k Tick) =
     s\<lparr>worker := In_render (Scroll img text_w dur start (k mod (text_w + w))),
        sink := sink s @ map (\<lambda>j. SetImage (wrap_slice img w (Suc j mod (text_w + w)))) [0..<k],
        now := now s + of_nat k * 0.02\<rparr>"
  using g
proof (induction k)
  case 0
  with wk show ?case by simp
next
  case (Suc k)
  let ?m = "text_w + w"
  let ?sk = "s\<lparr>worker := In_render (Scroll img text_w dur start (k mod ?m)),
        sink := sink s @ map (\<lambda>j. SetImage (wrap_slice img w (Suc j mod ?m))) [0..<k],
        now := now s + of_nat k * 0.02\<rparr>"
  from Suc.prems have "\<forall>j<k. case dur of None \<Rightarrow> True
         | Some d \<Rightarrow> now s + of_nat j * 0.02 - start < d"
    by simp
  then have sk: "run env s (replicate k Tick) = ?sk" by (rule Suc.IH)
  from Suc.prems have "case dur of None \<Rightarrow> True
         | Some d \<Rightarrow> now s + of_nat k * 0.02 - start < d"
    by simp
  with c have guard: "loop_guard ?sk dur start"
    by (simp add: loop_guard_def split: option.splits)
  have mk: "matrix ?sk = Some (w, h)" using m by simp
  from pos have "Suc k mod ?m < ?m" by simp
  with fits have "Suc k mod ?m \<le> length img" by simp
  then have fr: "scroll_frame img w (Suc (k mod ?m) mod ?m) = Inr (wrap_slice img w (Suc k mod ?m))"
    using wl by (simp add: scroll_frame_wrap mod_Suc_eq)
  have wsk: "worker ?sk = In_render (Scroll img text_w dur start (k mod ?m))" by simp
  have ws: "worker_step env ?sk =
      (?sk\<lparr>sink := sink ?sk @ [SetImage (wrap_slice img w (Suc k mod ?m))],
          now := now ?sk + 0.02\<rparr>)\<lparr>worker :=
            In_render (Scroll img text_w dur start (Suc (k mod ?m) mod ?m))\<rparr>"
    unfolding worker_step_def wsk
    by (simp only: wpc.case render_turn.simps scroll_turn_ok [OF guard mk pos fr] turn.case)
  show ?case
    unfolding run_ticks_Suc sk ws by (simp add: mod_Suc_eq algebra_simps)
qed

lemma scroll_exit:
  assumes "worker s = In_render (Scroll img text_w (Some d) start x)" "d \<le> now s - start"
  shows "worker_step env s = s\<lparr>worker := At_finally None\<rparr>"
  using assms by (simp add: worker_step_def display_text_scroll_turn_def loop_guard_def)

text \<open>
  The scrolling thread of \<^verbatim>\<open>pi_server.py\<close> advances and draws in the same order, on
  its fixed viewport of 64 columns.
\<close>

lemma mh_scroll_turn:
  assumes "mh_guard s dur start = Go" "Suc x mod (text_w + 64) \<le> length img"
    "64 \<le> length img"
  shows "thread_step env fetch n (T_scroll img text_w dur start x) s =
     (T_scroll img text_w dur start (Suc x mod (text_w + 64)),
      mh_sleep 0.02 (mh_set_image n (wrap_slice img 64 (Suc x mod (text_w + 64))) s))"
  using assms by (simp add: thread_step_def py_mod_def scroll_frame_wrap)

text \<open>
  A text with a line break is not measured: the routine raises before its loop, no frame
  is shown, and the exception ends the worker thread. An offset beyond the strip cannot
  be cropped either.
\<close>

lemma text_line_break_ends_worker:
  assumes "worker s = At_dispatch job" "jtype job = TEXT"
    "10 \<in> set (or_default (jtext job) [])"
  shows "run env s [Tick, Tick] =
     s\<lparr>shown_log := shown_log s @ [jid job], current_job := None,
       worker := Dead ValueError\<rparr>"
  using assms
  by (simp add: worker_step_def dispatch_def display_text_scroll_def draw_textlength_def
      case_prod_beta)

lemma scroll_frame_past_strip: "length img < x \<Longrightarrow> scroll_frame img w x = Inl ValueError"
  by (simp add: scroll_frame_def crop_def)

text \<open>
  C8 (as amended). A text job whose text has no line break, on a manager with a matrix
  \<open>w\<close> columns wide, with \<open>0 < text_w + w \<le> 1001\<close> and \<open>w \<le> 1000\<close>, so that every
  offset lies on the strip: as long as the job is not cancelled and
  its duration has not passed, every turn of the loop first advances the offset to
  \<open>(x + 1) mod (text_w + w)\<close> and then shows the frame at the new offset, every 0.02
  seconds. So the offsets at which frames are shown are 1, 2, \<dots>, \<open>text_w + w - 1\<close>, 0,
  1, \<dots> (the \<open>j\<close>-th frame, counted from 0, is at \<open>(j + 1) mod (text_w + w)\<close>). The frame
  at offset \<open>x\<close> is the window \<open>[x, x + w)\<close> of the strip image, which is 1000 columns
  wide; where the window passes column 1000 it continues at column 0.
\<close>

theorem scroll_offsets:
  assumes "worker s = At_dispatch job" and "jtype job = TEXT"
    and "txt = or_default (jtext job) []" and "text_w = textlength env txt"
    and "matrix s = Some (w, h)"
    and "img = take 1000 (draw_text env txt h @ replicate 1000 0)"
    and "0 < text_w + w" and "text_w + w \<le> 1001" and "w \<le> 1000"
    and "\<not> cancel_evt s"
    and "\<forall>j<k. case duration job of None \<Rightarrow> True | Some d \<Rightarrow> of_nat j * 0.02 < d"
    and "10 \<notin> set txt"
  shows "worker (run env s (Tick # replicate k Tick))
      = In_render (Scroll img text_w (duration job) (now s) (k mod (text_w + w)))
    \<and> sink (run env s (Tick # replicate k Tick))
      = sink s @ map (\<lambda>j. SetImage (wrap_slice img w (Suc j mod (text_w + w)))) [0..<k]
    \<and> now (run env s (Tick # replicate k Tick)) = now s + of_nat k * 0.02
    \<and> length img = 1000
    \<and> (\<forall>x c. c < w \<longrightarrow> length (wrap_slice img w x) = w
          \<and> wrap_slice img w x ! c = img ! ((x + c) mod 1000))"
proof -
  let ?s1 = "s\<lparr>shown_log := shown_log s @ [jid job],
      worker := In_render (Scroll img text_w (duration job) (now s) 0)\<rparr>"
  from assms(1-6) assms(12) have d: "worker_step env s = ?s1"
    by (simp add: worker_step_def dispatch_def enter_def display_text_scroll_def
        draw_textlength_def dims_def)
  from assms(6) have L: "length img = 1000" by simp
  from assms(11) have g: "\<forall>j<k. case duration job of None \<Rightarrow> True
         | Some d \<Rightarrow> now ?s1 + of_nat j * 0.02 - now s < d"
    by (auto split: option.splits)
  have "run env ?s1 (replicate k Tick) =
     ?s1\<lparr>worker := In_render (Scroll img text_w (duration job) (now s) (k mod (text_w + w))),
        sink := sink ?s1 @ map (\<lambda>j. SetImage (wrap_slice img w (Suc j mod (text_w + w)))) [0..<k],
        now := now ?s1 + of_nat k * 0.02\<rparr>"
    by (rule scroll_turns [OF _ _ _ assms(7) _ _ g]) (simp_all add: assms(5,8,9,10) L)
  then have R: "run env s (Tick # replicate k Tick) =
     ?s1\<lparr>worker := In_render (Scroll img text_w (duration job) (now s) (k mod (text_w + w))),
        sink := sink s @ map (\<lambda>j. SetImage (wrap_slice img w (Suc j mod (text_w + w)))) [0..<k],
        now := now s + of_nat k * 0.02\<rparr>"
    by (simp add: d)
  have W: "\<forall>x c. c < w \<longrightarrow> length (wrap_slice img w x) = w
          \<and> wrap_slice img w x ! c = img ! ((x + c) mod 1000)"
    by (simp add: wrap_slice_def L)
  from R L W show ?thesis by simp
qed

lemma scroll_start_facts:
  "worker scroll_start = At_dispatch (text_job\<lparr>jid := 1\<rparr>)"
  "jtype (text_job\<lparr>jid := 1\<rparr>) = TEXT"
  "[72, 105] = or_default (jtext (text_job\<lparr>jid := 1\<rparr>)) []"
  "50 = textlength env50 [72, 105]"
  "matrix scroll_start = Some (20, 64)"
  "strip_hi = take 1000 (draw_text env50 [72, 105] 64 @ replicate 1000 0)"
  "\<not> cancel_evt scroll_start"
  "sink scroll_start = []" "now scroll_start = 0"
  "duration (text_job\<lparr>jid := 1\<rparr>) = Some 10"
  "10 \<notin> set [72, 105 :: nat]"
  by (simp_all add: scroll_start_def text_job_def Job_new_def or_default_def env50_def env0_def
      strip_hi_def DisplayManager_init_def)

lemma short_guard:
  "\<forall>j<3. case duration (text_job\<lparr>jid := 1\<rparr>) of None \<Rightarrow> True
       | Some d \<Rightarrow> rat_of_nat j * 0.02 < d"
proof (intro allI impI)
  fix j :: nat assume "j < 3"
  then have "rat_of_nat j \<le> 3" by simp
  then have "rat_of_nat j * 0.02 < 10" by simp
  then show "case duration (text_job\<lparr>jid := 1\<rparr>) of None \<Rightarrow> True
       | Some d \<Rightarrow> rat_of_nat j * 0.02 < d"
    by (simp add: scroll_start_facts(10))
qed

lemma upt_3: "[0..<3] = [0, 1, 2]"
  by (simp add: upt_rec)

theorem scroll_offsets_witness:
  "worker scroll_start = At_dispatch (text_job\<lparr>jid := 1\<rparr>)
   \<and> jtype (text_job\<lparr>jid := 1\<rparr>) = TEXT
   \<and> or_default (jtext (text_job\<lparr>jid := 1\<rparr>)) [] = [72, 105]
   \<and> textlength env50 [72, 105] = 50
   \<and> matrix scroll_start = Some (20, 64) \<and> \<not> cancel_evt scroll_start
   \<and> duration (text_job\<lparr>jid := 1\<rparr>) = Some 10
   \<and> worker (run env50 scroll_start (Tick # replicate 3 Tick))
     = In_render (Scroll strip_hi 50 (Some 10) 0 3)
   \<and> sink (run env50 scroll_start (Tick # replicate 3 Tick))
     = [SetImage (wrap_slice strip_hi 20 1), SetImage (wrap_slice strip_hi 20 2),
        SetImage (wrap_slice strip_hi 20 3)]
   \<and> now (run env50 scroll_start (Tick # replicate 3 Tick)) = 0.06"
proof -
  note f = scroll_start_facts
  have "worker (run env50 scroll_start (Tick # replicate 3 Tick))
     = In_render (Scroll strip_hi 50 (Some 10) 0 3)
   \<and> sink (run env50 scroll_start (Tick # replicate 3 Tick))
     = [SetImage (wrap_slice strip_hi 20 1), SetImage (wrap_slice strip_hi 20 2),
        SetImage (wrap_slice strip_hi 20 3)]
   \<and> now (run env50 scroll_start (Tick # replicate 3 Tick)) = 0.06"
    using scroll_offsets [OF f(1) f(2) f(3) f(4) f(5) f(6) _ _ _ f(7) short_guard f(11)]
    by (simp add: f(8,9,10) upt_3 numeral_2_eq_2 [symmetric])
  with f(1,2,5,7,10) f(3) [symmetric] f(4) [symmetric] show ?thesis by simp
qed

text \<open>
  C8 as stated fails: for a text of width 50 and a viewport of width 20 the first frame
  shown is the window at offset 1, which differs from the window at offset 0.
\<close>

theorem scroll_first_offset_is_one:
  "worker (run env50 scroll_start [Tick, Tick]) = In_render (Scroll strip_hi 50 (Some 10) 0 1)
   \<and> sink (run env50 scroll_start [Tick, Tick]) = [SetImage (wrap_slice strip_hi 20 1)]
   \<and> wrap_slice strip_hi 20 1 ! 0 = 105
   \<and> wrap_slice strip_hi 20 0 ! 0 = 72"
proof -
  note f = scroll_start_facts
  let ?s1 = "scroll_start\<lparr>shown_log := shown_log scroll_start @ [1],
      worker := In_render (Scroll strip_hi 50 (Some 10) 0 0)\<rparr>"
  have d: "worker_step env50 scroll_start = ?s1"
    using f(4,6)
    by (simp add: worker_step_def dispatch_def enter_def display_text_scroll_def
        draw_textlength_def dims_def f(1,5,9) text_job_def Job_new_def or_default_def)
  have g: "\<forall>j<Suc 0. case Some (10::rat) of None \<Rightarrow> True
       | Some d \<Rightarrow> now ?s1 + of_nat j * 0.02 - 0 < d"
    by (simp add: f(9))
  have L: "length strip_hi = 1000" by (simp add: strip_hi_def)
  have "run env50 ?s1 (replicate (Suc 0) Tick) =
     ?s1\<lparr>worker := In_render (Scroll strip_hi 50 (Some 10) 0 (Suc 0 mod (50 + 20))),
        sink := sink ?s1 @ map (\<lambda>j. SetImage (wrap_slice strip_hi 20 (Suc j mod (50 + 20)))) [0..<Suc 0],
        now := now ?s1 + of_nat (Suc 0) * 0.02\<rparr>"
    by (rule scroll_turns [OF _ _ _ _ _ _ g]) (simp_all add: f(5,7) L)
  then have "run env50 scroll_start [Tick, Tick] =
     ?s1\<lparr>worker := In_render (Scroll strip_hi 50 (Some 10) 0 1),
        sink := [SetImage (wrap_slice strip_hi 20 1)], now := 0.02\<rparr>"
    by (simp add: d f(8,9))
  moreover have "wrap_slice strip_hi 20 1 ! 0 = 105" "wrap_slice strip_hi 20 0 ! 0 = 72"
    by (simp_all add: wrap_slice_def L) (simp_all add: strip_hi_def)
  ultimately show ?thesis by simp
qed


section \<open>The exit condition of the render loops\<close>

lemma guard_exit: "loop_guard s dur start \<longleftrightarrow> \<not> exit_condition s dur start"
  by (auto simp: loop_guard_def exit_condition_def split: option.splits)

lemma turn_Return_iff:
  "render_turn env r s = Return \<longleftrightarrow> exit_condition s (render_duration r) (render_start r)"
  by (cases r)
    (auto simp: display_image_turn_def display_gif_turn_def display_text_scroll_turn_def
      guard_exit Let_def split: sum.splits prod.splits)

lemma scroll_frame_defined:
  assumes "x \<le> length img"
  shows "\<exists>f. scroll_frame img w x = Inr f"
proof (cases "x + w \<le> length img")
  case True
  then show ?thesis by (simp add: scroll_frame_def crop_inside)
next
  case False
  have "crop img 0 (w - length (drop x img)) =
      Inr (take (w - length (drop x img))
        (img @ replicate (w - length (drop x img)) 0))"
    by (simp add: crop_def)
  with False assms show ?thesis
    by (simp add: scroll_frame_def crop_tail)
qed

lemma gif_turn_Again:
  assumes "loop_guard s dur start" "i < length frames" "i < length delays"
  shows "display_gif_turn env frames delays dur start i s =
     Again (Gif frames delays dur start (Suc i mod length frames))
       (sleep (max 0.01 (delays ! i))
          (set_image (fit env NEAREST (frames ! i) (fst (dims s)) (snd (dims s))) s))"
proof -
  from assms(2) have "frames \<noteq> []" by auto
  with assms show ?thesis
    by (simp add: display_gif_turn_def py_index_def py_mod_def case_prod_beta)
qed

lemma scroll_turn_Again:
  assumes "loop_guard s dur start" "0 < text_w + fst (dims s)"
    "scroll_frame img (fst (dims s)) (Suc x mod (text_w + fst (dims s))) = Inr f"
  shows "display_text_scroll_turn img text_w dur start x s =
     Again (Scroll img text_w dur start (Suc x mod (text_w + fst (dims s))))
       (sleep 0.02 (set_image f s))"
  using assms by (simp add: display_text_scroll_turn_def py_mod_def case_prod_beta)

lemma dims_control: "control a = control b \<Longrightarrow> dims a = dims b"
  using control_eqD(6) [of a b] by (simp add: dims_def)

lemma render_ok_cong: "dims a = dims b \<Longrightarrow> render_ok a r = render_ok b r"
  by (cases r) simp_all

lemma render_ok_control: "control a = control b \<Longrightarrow> render_ok a r = render_ok b r"
  by (rule render_ok_cong) (rule dims_control)

lemma turn_unbounded:
  assumes d: "render_duration r = None" and ok: "render_ok s r" and c: "\<not> cancel_evt s"
  shows "\<exists>r1 s1. render_turn env r s = Again r1 s1 \<and> render_duration r1 = None
     \<and> render_ok s r1"
proof (cases r)
  case (Hold dur start)
  with d c show ?thesis
    by (simp add: display_image_turn_def loop_guard_def)
next
  case (Gif frames delays dur start i)
  with d c have g: "loop_guard s dur start" by (simp add: loop_guard_def)
  from Gif ok have i: "i < length frames" "i < length delays" by simp_all
  from i(1) have "0 < length frames" by linarith
  then have "Suc i mod length frames < length frames" by simp
  with Gif ok have "render_ok s (Gif frames delays dur start (Suc i mod length frames))"
    by simp
  moreover from Gif d have "render_duration (Gif frames delays dur start (Suc i mod length frames)) = None"
    by simp
  moreover from Gif have "render_turn env r s =
     Again (Gif frames delays dur start (Suc i mod length frames))
       (sleep (max 0.01 (delays ! i))
          (set_image (fit env NEAREST (frames ! i) (fst (dims s)) (snd (dims s))) s))"
    using gif_turn_Again [OF g i] by simp
  ultimately show ?thesis by blast
next
  case (Scroll img text_w dur start x)
  let ?w = "fst (dims s)"
  from Scroll d c have g: "loop_guard s dur start" by (simp add: loop_guard_def)
  from Scroll ok have pos: "0 < text_w + ?w" and fits: "text_w + ?w \<le> Suc (length img)"
    by simp_all
  from pos have "Suc x mod (text_w + ?w) < text_w + ?w" by simp
  with fits have "Suc x mod (text_w + ?w) \<le> length img" by simp
  then obtain f where f: "scroll_frame img ?w (Suc x mod (text_w + ?w)) = Inr f"
    using scroll_frame_defined by blast
  from Scroll ok have "render_ok s (Scroll img text_w dur start (Suc x mod (text_w + ?w)))"
    by simp
  moreover from Scroll d
  have "render_duration (Scroll img text_w dur start (Suc x mod (text_w + ?w))) = None"
    by simp
  moreover from Scroll have "render_turn env r s =
     Again (Scroll img text_w dur start (Suc x mod (text_w + ?w))) (sleep 0.02 (set_image f s))"
    using scroll_turn_Again [OF g pos f] by simp
  ultimately show ?thesis by blast
qed

lemma unbounded_worker_step:
  assumes "unbounded s"
  shows "unbounded (worker_step env s) \<and> current_job (worker_step env s) = current_job s"
proof -
  from assms obtain r where r: "worker s = In_render r" and d: "render_duration r = None"
    and ok: "render_ok s r" and c: "\<not> cancel_evt s"
    by (auto simp: unbounded_def split: wpc.splits)
  from turn_unbounded [OF d ok c] obtain r1 s1 where
    t: "render_turn env r s = Again r1 s1" and d1: "render_duration r1 = None"
    and ok1: "render_ok s r1"
    by blast
  have cs: "control s1 = control s" by (rule control_turn_Again [OF t])
  have w: "worker_step env s = s1\<lparr>worker := In_render r1\<rparr>"
    by (simp add: worker_step_def r t)
  have "control (s1\<lparr>worker := In_render r1\<rparr>) = control s" using cs by simp
  then have "render_ok (s1\<lparr>worker := In_render r1\<rparr>) r1 = render_ok s r1"
    by (rule render_ok_control)
  with ok1 d1 c control_eqD(2,3) [OF cs] show ?thesis
    by (simp add: w unbounded_def)
qed

lemma step_caller:
  assumes "e \<noteq> Stop" "e \<noteq> Tick"
  shows "worker (step env s e) = worker s \<and> cancel_evt (step env s e) = cancel_evt s
     \<and> matrix (step env s e) = matrix s \<and> current_job (step env s e) = current_job s
     \<and> sink (step env s e) = sink s"
  using assms by (cases e) (simp_all add: next_job_id_def q_put_def Let_def)

lemma unbounded_step:
  assumes "unbounded s" "e \<noteq> Stop"
  shows "unbounded (step env s e) \<and> current_job (step env s e) = current_job s"
proof (cases "e = Tick")
  case True
  with assms(1) show ?thesis by (simp add: unbounded_worker_step)
next
  case False
  note f = step_caller [OF assms(2) False, of env s]
  then have "dims (step env s e) = dims s" by (simp add: dims_def)
  then have "render_ok (step env s e) r = render_ok s r" for r
    by (rule render_ok_cong)
  with assms(1) f show ?thesis
    by (simp add: unbounded_def split: wpc.splits)
qed

lemma unbounded_run:
  "unbounded s \<Longrightarrow> Stop \<notin> set es \<Longrightarrow>
   unbounded (run env s es) \<and> current_job (run env s es) = current_job s"
proof (induction es arbitrary: s)
  case Nil
  then show ?case by simp
next
  case (Cons e es)
  from Cons.prems have "e \<noteq> Stop" "Stop \<notin> set es" by auto
  with unbounded_step [OF Cons.prems(1) this(1), of env] Cons.IH [of "step env s e"]
  show ?case by simp
qed

text \<open>
  C3 (as amended). Every turn of a render loop starts with the check of the exit
  condition: if it holds the routine returns at once, writing nothing and taking no
  time, and if it does not hold the routine does not return in this turn. The animation
  and the scrolling text write their frames inside the loop, so after the check. The
  static image and the weather routine write their one frame once when they are entered,
  before the first check and whatever the exit condition says, and their loop only
  sleeps and never writes. A job without duration whose loop cannot raise stays in its
  render loop, as the current job, under every schedule in which nobody sets the cancel
  event.
\<close>

theorem exit_condition_checked:
  "(worker s = In_render r \<longrightarrow>
      (exit_condition s (render_duration r) (render_start r) \<longrightarrow>
         worker_step env s = s\<lparr>worker := At_finally None\<rparr>)
      \<and> (\<not> exit_condition s (render_duration r) (render_start r) \<longrightarrow>
         worker (worker_step env s) \<noteq> At_finally None))
   \<and> (worker s = In_render (Hold dur start) \<longrightarrow> sink (worker_step env s) = sink s)
   \<and> (worker s = At_dispatch job \<and> jtype job = IMAGE \<and> \<not> truthy (gif_frames job)
        \<and> jimage job = Some img \<and> matrix s = Some (w, h) \<longrightarrow>
      worker_step env s =
        s\<lparr>shown_log := shown_log s @ [jid job],
          sink := sink s @ [SetImage (fit env LANCZOS img w h)],
          worker := In_render (Hold (duration job) (now s))\<rparr>)
   \<and> (worker s = At_dispatch job \<and> jtype job = WEATHER \<and> matrix s = Some (w, h) \<longrightarrow>
      worker_step env s =
        s\<lparr>shown_log := shown_log s @ [jid job],
          sink := sink s @ [SetImage (fit env LANCZOS
                    (weather_block env (or_default (template job) str_default)) w h)],
          worker := In_render (Hold (duration job) (now s))\<rparr>)
   \<and> (unbounded s \<and> Stop \<notin> set es \<longrightarrow>
        unbounded (run env s es) \<and> current_job (run env s es) = current_job s)"
proof -
  have a: "worker_step env s = s\<lparr>worker := At_finally None\<rparr>"
    if "worker s = In_render r" "exit_condition s (render_duration r) (render_start r)"
    using that turn_Return_iff [of env r s] by (simp add: worker_step_def)
  have b: "worker (worker_step env s) \<noteq> At_finally None"
    if "worker s = In_render r" "\<not> exit_condition s (render_duration r) (render_start r)"
    using that turn_Return_iff [of env r s]
    by (cases "render_turn env r s") (simp_all add: worker_step_def)
  have c: "sink (worker_step env s) = sink s" if "worker s = In_render (Hold dur start)"
    using that by (simp add: worker_step_def display_image_turn_def sleep_def)
  have d: "worker_step env s =
        s\<lparr>shown_log := shown_log s @ [jid job],
          sink := sink s @ [SetImage (fit env LANCZOS img w h)],
          worker := In_render (Hold (duration job) (now s))\<rparr>"
    if "worker s = At_dispatch job" "jtype job = IMAGE" "\<not> truthy (gif_frames job)"
      "jimage job = Some img" "matrix s = Some (w, h)"
    using that
    by (simp add: worker_step_def dispatch_def enter_def display_image_def dims_def set_image_def)
  have e: "worker_step env s =
        s\<lparr>shown_log := shown_log s @ [jid job],
          sink := sink s @ [SetImage (fit env LANCZOS
                    (weather_block env (or_default (template job) str_default)) w h)],
          worker := In_render (Hold (duration job) (now s))\<rparr>"
    if "worker s = At_dispatch job" "jtype job = WEATHER" "matrix s = Some (w, h)"
    using that
    by (simp add: worker_step_def dispatch_def enter_def display_weather_template_def
        display_image_def dims_def set_image_def)
  have f: "unbounded (run env s es) \<and> current_job (run env s es) = current_job s"
    if "unbounded s" "Stop \<notin> set es"
    using that by (rule unbounded_run)
  from a b c d e f show ?thesis by blast
qed

lemma still_job_dispatched:
  "worker_step env0 (at_dispatch still_job) =
     (at_dispatch still_job)\<lparr>shown_log := [1], sink := [SetImage [1, 2] ],
        worker := In_render (Hold (Some 0) 0)\<rparr>"
  by (simp add: worker_step_def dispatch_def enter_def display_image_def dims_def set_image_def
      at_dispatch_def still_job_def Job_new_def truthy_def DisplayManager_init_def env0_def)

text \<open>
  C3 as stated fails: a still image with duration 0 is entered with the exit condition
  already true, and its frame is written all the same; the routine returns at its first
  check, which comes after the write.
\<close>

theorem still_image_written_before_check:
  "exit_condition (at_dispatch still_job) (duration still_job) (now (at_dispatch still_job))
   \<and> sink (at_dispatch still_job) = []
   \<and> sink (run env0 (at_dispatch still_job) [Tick]) = [SetImage [1, 2] ]
   \<and> worker (run env0 (at_dispatch still_job) [Tick, Tick]) = At_finally None"
proof -
  have "exit_condition (at_dispatch still_job) (duration still_job) (now (at_dispatch still_job))"
    "sink (at_dispatch still_job) = []"
    by (simp_all add: exit_condition_def at_dispatch_def still_job_def Job_new_def
        DisplayManager_init_def)
  moreover have "worker (worker_step env0 (worker_step env0 (at_dispatch still_job)))
      = At_finally None"
    unfolding still_job_dispatched
    by (simp add: worker_step_def display_image_turn_def loop_guard_def at_dispatch_def
        DisplayManager_init_def)
  ultimately show ?thesis by (simp add: still_job_dispatched)
qed

lemma gif_job_dispatched:
  "worker_step env0 (at_dispatch gif_job) =
     (at_dispatch gif_job)\<lparr>shown_log := [1],
        worker := In_render (Gif [ [10], [11], [12] ] [0.1, 0.2, 0.005] None 0 0)\<rparr>"
  by (simp add: worker_step_def dispatch_def enter_def display_gif_def
      at_dispatch_def gif_job_def Job_new_def truthy_def or_default_def DisplayManager_init_def)

theorem exit_condition_checked_witness:
  "unbounded (worker_step env0 (at_dispatch gif_job))
   \<and> Stop \<notin> set [Tick, Elapse 100, Tick]
   \<and> unbounded (run env0 (worker_step env0 (at_dispatch gif_job)) [Tick, Elapse 100, Tick])
   \<and> worker (worker_step env0 (at_dispatch still_job)) = In_render (Hold (Some 0) 0)
   \<and> exit_condition (worker_step env0 (at_dispatch still_job)) (Some 0) 0
   \<and> worker_step env0 (worker_step env0 (at_dispatch still_job))
     = (worker_step env0 (at_dispatch still_job))\<lparr>worker := At_finally None\<rparr>"
proof -
  have u: "unbounded (worker_step env0 (at_dispatch gif_job))"
    unfolding gif_job_dispatched
    by (simp add: unbounded_def at_dispatch_def DisplayManager_init_def)
  have n: "Stop \<notin> set [Tick, Elapse 100, Tick]" by simp
  have h: "worker (worker_step env0 (at_dispatch still_job)) = In_render (Hold (Some 0) 0)"
    "exit_condition (worker_step env0 (at_dispatch still_job)) (Some 0) 0"
    unfolding still_job_dispatched
    by (simp_all add: exit_condition_def at_dispatch_def DisplayManager_init_def)
  from exit_condition_checked [of "worker_step env0 (at_dispatch gif_job)" _ env0 _ _ _ _ _ _
      "[Tick, Elapse 100, Tick]"] u n
  have 1: "unbounded (run env0 (worker_step env0 (at_dispatch gif_job)) [Tick, Elapse 100, Tick])"
    by blast
  from exit_condition_checked [of "worker_step env0 (at_dispatch still_job)"
      "Hold (Some 0) 0" env0] h
  have 2: "worker_step env0 (worker_step env0 (at_dispatch still_job))
     = (worker_step env0 (at_dispatch still_job))\<lparr>worker := At_finally None\<rparr>"
    by simp
  from u n h 1 2 show ?thesis by blast
qed



section \<open>An exception in a render routine\<close>

lemma run_append: "run env s (es @ fs) = run env (run env s es) fs"
  by (induction es arbitrary: s) simp_all

lemma dead_step:
  assumes "worker s = Dead e"
  shows "worker (step env s ev) = Dead e \<and> pop_log (step env s ev) = pop_log s
     \<and> shown_log (step env s ev) = shown_log s \<and> sink (step env s ev) = sink s
     \<and> current_job (step env s ev) = current_job s
     \<and> prefix (job_q s) (job_q (step env s ev))"
  using assms
  by (cases ev) (simp_all add: next_job_id_def q_put_def stop_current_def worker_step_def Let_def)

lemma dead_forever:
  "worker s = Dead e \<Longrightarrow>
   worker (run env s es) = Dead e \<and> pop_log (run env s es) = pop_log s
     \<and> shown_log (run env s es) = shown_log s \<and> sink (run env s es) = sink s
     \<and> current_job (run env s es) = current_job s
     \<and> prefix (job_q s) (job_q (run env s es))"
proof (induction es arbitrary: s)
  case Nil
  then show ?case by simp
next
  case (Cons ev es)
  note st = dead_step [OF Cons.prems, of env ev]
  then have "worker (step env s ev) = Dead e" by simp
  from Cons.IH [OF this] st show ?case
    by (auto intro: prefix_order.trans)
qed

lemma raise_kills_worker:
  assumes "worker s = In_render r" "render_turn env r s = Raise e s1"
  shows "run env s [Tick, Tick] = s1\<lparr>current_job := None, worker := Dead e\<rparr>"
  using assms by (simp add: worker_step_def)

lemma bad_then_text_run:
  "run env0 (DisplayManager_init (Some (64, 64)) 0) bad_then_text =
     \<lparr>job_q = [text_job\<lparr>jid := 2\<rparr>], current_job = None, cancel_evt = False, next_id = 3,
      running = True, matrix = Some (64, 64), sink = [SetImage [1], SetImage [2] ], now = 0.1,
      worker = Dead IndexError, pending = [], assigned = [1, 2], put_log = [1, 2],
      pop_log = [1], shown_log = [1]\<rparr>"
  by (simp add: bad_then_text_def short_gif_job_def text_job_def DisplayManager_init_def
      Job_new_def next_job_id_def q_put_def worker_step_def dispatch_def enter_def truthy_def
      or_default_def display_gif_def display_gif_turn_def loop_guard_def py_index_def py_mod_def
      dims_def set_image_def sleep_def env0_def Let_def)

text \<open>
  C2, on the failing input. An animation with two frames and one delay is enqueued, then
  a text job. The worker shows both frames, \<^verbatim>\<open>delays[1]\<close> raises \<^verbatim>\<open>IndexError\<close>,
  the \<^verbatim>\<open>finally\<close> block clears the current job, and the exception ends the worker
  thread. Whatever happens afterwards, the worker stays dead, the text job is never
  taken from the queue, and nothing more reaches the sink.
\<close>

theorem worker_dies_on_render_error:
  "worker (run env0 (DisplayManager_init (Some (64, 64)) 0) (bad_then_text @ es))
     = Dead IndexError
   \<and> pop_log (run env0 (DisplayManager_init (Some (64, 64)) 0) (bad_then_text @ es)) = [1]
   \<and> sink (run env0 (DisplayManager_init (Some (64, 64)) 0) (bad_then_text @ es))
     = [SetImage [1], SetImage [2] ]
   \<and> current_job (run env0 (DisplayManager_init (Some (64, 64)) 0) (bad_then_text @ es)) = None
   \<and> prefix [text_job\<lparr>jid := 2\<rparr>]
       (job_q (run env0 (DisplayManager_init (Some (64, 64)) 0) (bad_then_text @ es)))"
proof -
  let ?s = "run env0 (DisplayManager_init (Some (64, 64)) 0) bad_then_text"
  have "worker ?s = Dead IndexError" by (simp add: bad_then_text_run)
  from dead_forever [OF this, of env0 es] show ?thesis
    by (simp add: run_append) (simp add: bad_then_text_run)
qed


section \<open>Blank text in a request\<close>

lemma py_strip_blank: "(\<forall>c\<in>set t. py_isspace c) \<longleftrightarrow> py_strip t = []"
proof
  assume "\<forall>c\<in>set t. py_isspace c"
  then show "py_strip t = []" by (auto simp: py_strip_def dest: set_dropWhileD)
next
  assume "py_strip t = []"
  then have all: "\<forall>c\<in>set (dropWhile py_isspace t). py_isspace c"
    by (simp add: py_strip_def)
  have "dropWhile py_isspace t = []"
  proof (rule ccontr)
    assume ne: "dropWhile py_isspace t \<noteq> []"
    then have "\<not> py_isspace (hd (dropWhile py_isspace t))" by (rule hd_dropWhile)
    moreover from ne have "hd (dropWhile py_isspace t) \<in> set (dropWhile py_isspace t)"
      by simp
    ultimately show False using all by blast
  qed
  then show "\<forall>c\<in>set t. py_isspace c" by simp
qed

lemma show_text_rejects_blank:
  assumes "\<forall>c\<in>set (req_text req). py_isspace c"
  shows "show_text s req = (Inl (HTTPException 400 ''text must not be empty''), s)"
  using assms by (simp add: show_text_def py_strip_blank)

lemma show_text_accepts_other:
  assumes "\<not> (\<forall>c\<in>set (req_text req). py_isspace c)"
  shows "show_text s req =
     (Inr (next_id s),
      snd (enqueue s ((Job_new TEXT)\<lparr>jtext := Some (req_text req), duration := req_duration req\<rparr>)))"
  using assms
  by (simp add: show_text_def py_strip_blank enqueue_def next_job_id_def Let_def)

lemma strip_of_length: "length (strip_of t) = 1000"
  by (simp add: strip_of_def)

text \<open>
  C9, on the failing input. In app.py a text that is empty or all whitespace is rejected
  with status 400 and the manager is unchanged (\<open>show_text_rejects_blank\<close>). In
  \<^verbatim>\<open>pi_server.py\<close> a text of three spaces, which \<^verbatim>\<open>strip()\<close> would empty, is accepted:
  the response is a success, a thread is started and it draws on the matrix. An empty
  text starts nothing, but the response has status 200.
\<close>

theorem pi_server_accepts_blank_text:
  "py_strip [32, 32, 32] = []
   \<and> do_POST ''/matrix/show/text'' (post_text [32, 32, 32]) (MatrixHandler_init 0)
     = (Json 200 True ''Text display started'',
        (MatrixHandler_init 0)\<lparr>mh_current_job := Some ''text'',
           threads := [T_text [32, 32, 32] (Some 10)]\<rparr>)
   \<and> mh_sink (mh_run env0 fetch0 (MatrixHandler_init 0)
        [Post ''/matrix/show/text'' (post_text [32, 32, 32]), Run 0, Run 0])
     = [(Thread 0, SetImage (wrap_slice (strip_of [32, 32, 32]) 64 1))]
   \<and> do_POST ''/matrix/show/text'' (post_text []) (MatrixHandler_init 0)
     = (Json 200 False ''Text required'', MatrixHandler_init 0)"
proof -
  have a: "py_strip [32, 32, 32] = []"
    by (simp add: py_strip_def py_isspace_def)
  have b: "do_POST ''/matrix/show/text'' (post_text [32, 32, 32]) (MatrixHandler_init 0)
     = (Json 200 True ''Text display started'',
        (MatrixHandler_init 0)\<lparr>mh_current_job := Some ''text'',
           threads := [T_text [32, 32, 32] (Some 10)]\<rparr>)"
    by (simp add: do_POST_def post_text_def truthy_def get_duration_def mh_show_text_def
        MatrixHandler_init_def)
  have c: "mh_sink (mh_run env0 fetch0 (MatrixHandler_init 0)
        [Post ''/matrix/show/text'' (post_text [32, 32, 32]), Run 0, Run 0])
     = [(Thread 0, SetImage (wrap_slice (strip_of [32, 32, 32]) 64 1))]"
    by (simp add: do_POST_def post_text_def truthy_def get_duration_def mh_show_text_def
        thread_step_def draw_textlength_def MatrixHandler_init_def env0_def strip_of_def
        mh_guard_def py_mod_def scroll_frame_wrap mh_set_image_def mh_sleep_def)
  have d: "do_POST ''/matrix/show/text'' (post_text []) (MatrixHandler_init 0)
     = (Json 200 False ''Text required'', MatrixHandler_init 0)"
    by (simp add: do_POST_def post_text_def truthy_def)
  from a b c d show ?thesis by blast
qed



section \<open>Who writes to the matrix\<close>

lemma only_worker_writes: "e \<noteq> Tick \<Longrightarrow> sink (step env s e) = sink s"
  by (cases e) (simp_all add: next_job_id_def q_put_def stop_current_def Let_def)

lemma callers_never_write: "Tick \<notin> set es \<Longrightarrow> sink (run env s es) = sink s"
  by (induction es arbitrary: s) (auto simp: only_worker_writes)

lemma show_text_no_write: "sink (snd (show_text s req)) = sink s"
  by (simp add: show_text_def enqueue_def next_job_id_def q_put_def Let_def)

text \<open>
  C4, on the failing input. In app.py only steps of the worker thread change the sink
  (\<open>only_worker_writes\<close>, \<open>callers_never_write\<close>, \<open>show_text_no_write\<close>). In \<^verbatim>\<open>pi_server.py\<close> two text requests
  start two threads, both stay in their loops, and the frames that reach the matrix come
  from the two threads in alternation; a clear request draws from the server thread
  itself.
\<close>

theorem pi_server_two_writers:
  "map fst (mh_sink (mh_run env0 fetch0 (MatrixHandler_init 0) two_texts))
     = [Thread 0, Thread 1, Thread 0, Thread 1]
   \<and> threads (mh_run env0 fetch0 (MatrixHandler_init 0) two_texts)
     = [T_scroll (strip_of [65]) 6 (Some 10) 0 2, T_scroll (strip_of [66]) 6 (Some 10) 0 2]
   \<and> mh_sink (mh_run env0 fetch0 (MatrixHandler_init 0) [Post ''/matrix/clear'' (post_text [])])
     = [(Server, Clear)]"
proof -
  have "mh_run env0 fetch0 (MatrixHandler_init 0) two_texts =
      \<lparr>stop_event = False, mh_current_job = Some ''text'',
       threads = [T_scroll (strip_of [65]) 6 (Some 10) 0 2,
                  T_scroll (strip_of [66]) 6 (Some 10) 0 2],
       mh_sink = [(Thread 0, SetImage (wrap_slice (strip_of [65]) 64 1)),
                  (Thread 1, SetImage (wrap_slice (strip_of [66]) 64 1)),
                  (Thread 0, SetImage (wrap_slice (strip_of [65]) 64 2)),
                  (Thread 1, SetImage (wrap_slice (strip_of [66]) 64 2))],
       mh_now = 0.08\<rparr>"
    by (simp add: two_texts_def do_POST_def post_text_def truthy_def get_duration_def
        mh_show_text_def thread_step_def draw_textlength_def MatrixHandler_init_def env0_def
        strip_of_def
        mh_guard_def py_mod_def scroll_frame_wrap mh_set_image_def mh_sleep_def
        numeral_2_eq_2 [symmetric])
  moreover
  have "mh_sink (mh_run env0 fetch0 (MatrixHandler_init 0) [Post ''/matrix/clear'' (post_text [])])
     = [(Server, Clear)]"
    by (simp add: do_POST_def mh_clear_def MatrixHandler_init_def)
  ultimately show ?thesis by simp
qed


end
